theory Spec2Isabelle
  imports Main "HOL-Library.Log_Nat" "HOL-Library.AList"
begin

section \<open>JavaScript numbers\<close>

text \<open>
  Every \<^verbatim>\<open>number\<close> of the program is an IEEE 754 binary64 value. A finite value is
  kept as the rational it denotes; an arithmetic operation computes the exact rational
  result and rounds it to the nearest binary64 value, ties to the even significand
  (\<open>roundDouble\<close>). Negative zero is identified with zero: the program only adds,
  subtracts, compares and prints numbers, and none of these tells the two apart.
  \<open>Infinity True\<close> is \<^verbatim>\<open>+Infinity\<close>, \<open>Infinity False\<close> is \<^verbatim>\<open>-Infinity\<close>.
\<close>

datatype number = NaN | Infinity bool | Finite rat

text \<open>\<open>ilog2 x\<close> is the binary exponent of a positive rational: \<open>2^e \<le> x < 2^(e+1)\<close>.\<close>

definition ilog2 :: "rat \<Rightarrow> int" where
  "ilog2 x = (case quotient_of x of (p, q) \<Rightarrow>
     (let d = bitlen p - bitlen q in if 2 powi d \<le> x then d else d - 1))"

definition roundHalfEven :: "rat \<Rightarrow> int" where
  "roundHalfEven x = (let f = \<lfloor>x\<rfloor>; d = x - of_int f in
     if d < 1 / 2 then f else if 1 / 2 < d then f + 1 else if even f then f else f + 1)"

text \<open>
  Rounding to binary64: 53 significant bits, the least exponent of a unit in the last
  place is \<open>-1074\<close> (subnormals), and a rounded result of magnitude \<open>2^1024\<close> or more
  (binary exponent 1024 or more) overflows to an infinity.
\<close>

definition roundDouble :: "rat \<Rightarrow> number" where
  "roundDouble x = (if x = 0 then Finite 0 else
     (let q = max (ilog2 \<bar>x\<bar> - 52) (- 1074);
          r = of_int (roundHalfEven (x / 2 powi q)) * 2 powi q
      in if r \<noteq> 0 \<and> 1024 \<le> ilog2 \<bar>r\<bar> then Infinity (0 < x) else Finite r))"

text \<open>A finite value of the model is a binary64 value when rounding leaves it alone.\<close>

definition isDouble :: "number \<Rightarrow> bool" where
  "isDouble x = (case x of Finite r \<Rightarrow> roundDouble r = Finite r | _ \<Rightarrow> True)"

text \<open>\<^verbatim>\<open>a + b\<close>, \<^verbatim>\<open>a - b\<close>, \<^verbatim>\<open>a >= b\<close> and \<^verbatim>\<open>isNaN(a)\<close> on numbers.\<close>

fun number_add :: "number \<Rightarrow> number \<Rightarrow> number" where
  "number_add NaN _ = NaN"
| "number_add _ NaN = NaN"
| "number_add (Infinity a) (Infinity b) = (if a = b then Infinity a else NaN)"
| "number_add (Infinity a) (Finite _) = Infinity a"
| "number_add (Finite _) (Infinity b) = Infinity b"
| "number_add (Finite x) (Finite y) = roundDouble (x + y)"

fun number_sub :: "number \<Rightarrow> number \<Rightarrow> number" where
  "number_sub NaN _ = NaN"
| "number_sub _ NaN = NaN"
| "number_sub (Infinity a) (Infinity b) = (if a = b then NaN else Infinity a)"
| "number_sub (Infinity a) (Finite _) = Infinity a"
| "number_sub (Finite _) (Infinity b) = Infinity (\<not> b)"
| "number_sub (Finite x) (Finite y) = roundDouble (x - y)"

fun number_ge :: "number \<Rightarrow> number \<Rightarrow> bool" where
  "number_ge NaN _ = False"
| "number_ge _ NaN = False"
| "number_ge (Infinity a) (Infinity b) = (a \<or> \<not> b)"
| "number_ge (Infinity a) (Finite _) = a"
| "number_ge (Finite _) (Infinity b) = (\<not> b)"
| "number_ge (Finite x) (Finite y) = (y \<le> x)"

definition isNaN :: "number \<Rightarrow> bool" where
  "isNaN x = (x = NaN)"

text \<open>The real number a finite value denotes (0 for the others), for exact sums.\<close>

fun valueOf :: "number \<Rightarrow> rat" where
  "valueOf (Finite r) = r"
| "valueOf _ = 0"

text \<open>A non-negative whole number.\<close>

definition wholeAmount :: "number \<Rightarrow> bool" where
  "wholeAmount x = (case x of Finite r \<Rightarrow> 0 \<le> r \<and> r = of_int \<lfloor>r\<rfloor> | _ \<Rightarrow> False)"

section \<open>Strings\<close>

text \<open>
  A string is its sequence of UTF-8 bytes. The program compares strings with each other
  and looks for the ASCII characters comma, double quote and white space in them; no
  byte of a multi-byte UTF-8 sequence is an ASCII character, so the byte view and
  JavaScript's code-unit view agree on all of these. \<open>isWhiteSpace\<close> is the ASCII
  part of what \<^verbatim>\<open>trim\<close> and \<^verbatim>\<open>parseFloat\<close> skip.
\<close>

definition isWhiteSpace :: "char \<Rightarrow> bool" where
  "isWhiteSpace c = (c \<in> set [CHR 0x09, CHR 0x0A, CHR 0x0B, CHR 0x0C, CHR 0x0D, CHR 0x20])"

definition trim :: "string \<Rightarrow> string" where
  "trim s = rev (dropWhile isWhiteSpace (rev (dropWhile isWhiteSpace s)))"

definition isDigit :: "char \<Rightarrow> bool" where
  "isDigit c = (c \<in> set ''0123456789'')"

definition digitsValue :: "string \<Rightarrow> int" where
  "digitsValue ds = foldl (\<lambda>n c. 10 * n + (of_char c - 48)) 0 ds"

text \<open>\<^verbatim>\<open>Array.prototype.join\<close> on strings.\<close>

fun join :: "string \<Rightarrow> string list \<Rightarrow> string" where
  "join sep [] = []"
| "join sep [x] = x"
| "join sep (x # y # ys) = x @ sep @ join sep (y # ys)"

subsection \<open>parseFloat\<close>

text \<open>
  \<^verbatim>\<open>parseFloat\<close> skips leading white space, reads the longest prefix that is a decimal
  literal (sign, \<^verbatim>\<open>Infinity\<close> or digits with an optional fraction and exponent) and
  rounds its value; with no such prefix the result is \<^verbatim>\<open>NaN\<close>.
\<close>

definition signPart :: "string \<Rightarrow> bool \<times> string" where
  "signPart s = (case s of
       c # r \<Rightarrow> if c = CHR ''-'' then (True, r) else if c = CHR ''+'' then (False, r) else (False, s)
     | [] \<Rightarrow> (False, s))"

definition exponentPart :: "string \<Rightarrow> int" where
  "exponentPart s = (case s of
       c # r \<Rightarrow>
         if c = CHR ''e'' \<or> c = CHR ''E'' then
           (case signPart r of (neg, d) \<Rightarrow>
             (let ds = takeWhile isDigit d in
              if ds = [] then 0
              else if neg then - digitsValue ds else digitsValue ds))
         else 0
     | [] \<Rightarrow> 0)"

definition parseFloat :: "string \<Rightarrow> number" where
  "parseFloat inputString =
     (case signPart (dropWhile isWhiteSpace inputString) of (neg, u) \<Rightarrow>
        if take 8 u = ''Infinity'' then Infinity (\<not> neg)
        else
          (let ip = takeWhile isDigit u;
               r1 = dropWhile isDigit u;
               fp = (case r1 of c # r \<Rightarrow> if c = CHR ''.'' then takeWhile isDigit r else [] | [] \<Rightarrow> []);
               r2 = (case r1 of c # r \<Rightarrow> if c = CHR ''.'' then dropWhile isDigit r else r1 | [] \<Rightarrow> r1)
           in if ip = [] \<and> fp = [] then NaN
              else
                (let v = of_int (digitsValue (ip @ fp)) * 10 powi (exponentPart r2 - int (length fp))
                 in roundDouble (if neg then - v else v))))"

section \<open>Data model\<close>

text \<open>
  \<^verbatim>\<open>interface Transaction { id; description; amount; type; category?; date; user }\<close>.
  The value passed to \<^verbatim>\<open>addTransaction\<close> is \<^verbatim>\<open>Omit<Transaction, 'id'>\<close>; the
  transaction extends it with the identifier (\<open>id'\<close>, as \<open>id\<close> is the identity
  function of HOL). An absent \<^verbatim>\<open>category\<close> is \<open>None\<close>.
\<close>

datatype TransactionType = Income | FixedExpense | VariableExpense

record TransactionInput =
  description :: string
  amount :: number
  type :: TransactionType
  category :: "string option"
  date :: string
  user :: string

record Transaction = TransactionInput +
  id' :: string

definition DEFAULT_CATEGORIES :: "string list" where
  "DEFAULT_CATEGORIES = [''Comida'', ''Transporte'', ''Ocio'', ''Hogar'', ''Salud'',
     ''Educaci'' @ [CHR 0xC3, CHR 0xB3] @ ''n'']"

definition DEFAULT_USERS :: "string list" where
  "DEFAULT_USERS = [''Usuario 1'', ''Usuario 2'']"

definition DEFAULT_BUDGET :: number where
  "DEFAULT_BUDGET = Finite 2000"

section \<open>localStorage\<close>

text \<open>
  The browser's key-value store. \<^verbatim>\<open>setItem\<close> throws (\<open>None\<close>) when the store would
  grow beyond its quota; how much room there is and how size is counted belong to the
  browser, here the lengths of the keys and values against \<open>quota\<close>.
\<close>

record Storage =
  items :: "(string \<times> string) list"
  quota :: nat

definition getItem :: "Storage \<Rightarrow> string \<Rightarrow> string option" where
  "getItem st key = map_of (items st) key"

definition usage :: "(string \<times> string) list \<Rightarrow> nat" where
  "usage its = sum_list (map (\<lambda>(k, v). length k + length v) its)"

definition setItem :: "Storage \<Rightarrow> string \<Rightarrow> string \<Rightarrow> Storage option" where
  "setItem st key val =
     (let its = AList.update key val (items st)
      in if usage its \<le> quota st then Some (st\<lparr>items := its\<rparr>) else None)"

section \<open>useLocalStorage\<close>

text \<open>
  The hook's initial value: \<^verbatim>\<open>item ? JSON.parse(item) : initialValue\<close>, and
  \<^verbatim>\<open>initialValue\<close> when \<^verbatim>\<open>JSON.parse\<close> throws. \<^verbatim>\<open>JSON.parse\<close> is the parameter
  \<open>parse\<close>, at the type of the stored value; \<open>None\<close> is its exception. (The program
  casts what \<^verbatim>\<open>JSON.parse\<close> returns to that type without a check; a stored text
  that denotes a value of another shape has no counterpart in this typed model.)
\<close>

definition initialStoredValue :: "(string \<Rightarrow> 'a option) \<Rightarrow> Storage \<Rightarrow> string \<Rightarrow> 'a \<Rightarrow> 'a" where
  "initialStoredValue parse st key initialValue =
     (case getItem st key of
        None \<Rightarrow> initialValue
      | Some item \<Rightarrow>
          if item = [] then initialValue
          else (case parse item of None \<Rightarrow> initialValue | Some v \<Rightarrow> v))"

text \<open>
  \<^verbatim>\<open>setValue\<close> takes a value or an updater. The state is set first; the write to the
  store comes after it inside the same \<^verbatim>\<open>try\<close>, so when \<^verbatim>\<open>JSON.stringify\<close> (the
  parameter \<open>stringify\<close>) or \<^verbatim>\<open>setItem\<close> throws, the state keeps the new value and the
  store its old content.
\<close>

datatype 'a SetStateAction = Value 'a | Updater "'a \<Rightarrow> 'a"

definition setValue ::
  "('a \<Rightarrow> string option) \<Rightarrow> string \<Rightarrow> 'a SetStateAction \<Rightarrow> 'a \<times> Storage \<Rightarrow> 'a \<times> Storage" where
  "setValue stringify key val s =
     (case s of (storedValue, st) \<Rightarrow>
        (let valueToStore = (case val of Updater f \<Rightarrow> f storedValue | Value v \<Rightarrow> v)
         in case stringify valueToStore of
              None \<Rightarrow> (valueToStore, st)
            | Some text \<Rightarrow>
                (case setItem st key text of
                   None \<Rightarrow> (valueToStore, st)
                 | Some st' \<Rightarrow> (valueToStore, st'))))"

section \<open>The App component\<close>

text \<open>
  What the browser supplies: \<^verbatim>\<open>new Date(s).getTime()\<close> (\<open>None\<close> is \<^verbatim>\<open>NaN\<close>, an
  invalid date; time values are whole milliseconds), the conversion of a number to a
  string, and \<^verbatim>\<open>JSON.stringify\<close> at the three types the program stores.
\<close>

record Platform =
  getTime :: "string \<Rightarrow> int option"
  numberToString :: "number \<Rightarrow> string"
  stringifyTransactions :: "Transaction list \<Rightarrow> string option"
  stringifyStrings :: "string list \<Rightarrow> string option"
  stringifyNumber :: "number \<Rightarrow> string option"

text \<open>The four persisted values of \<^verbatim>\<open>App\<close> and the store behind them.\<close>

record App =
  transactions :: "Transaction list"
  categories :: "string list"
  users :: "string list"
  budget :: number
  localStorage :: Storage

definition initialApp ::
  "(string \<Rightarrow> Transaction list option) \<Rightarrow> (string \<Rightarrow> string list option) \<Rightarrow>
     (string \<Rightarrow> number option) \<Rightarrow> Storage \<Rightarrow> App" where
  "initialApp parseTransactions parseStrings parseNumber st =
     \<lparr>transactions = initialStoredValue parseTransactions st ''transactions'' [],
      categories = initialStoredValue parseStrings st ''categories'' DEFAULT_CATEGORIES,
      users = initialStoredValue parseStrings st ''users'' DEFAULT_USERS,
      budget = initialStoredValue parseNumber st ''budget'' DEFAULT_BUDGET,
      localStorage = st\<rparr>"

definition setTransactions :: "Platform \<Rightarrow> Transaction list SetStateAction \<Rightarrow> App \<Rightarrow> App" where
  "setTransactions P val s =
     (case setValue (stringifyTransactions P) ''transactions'' val (transactions s, localStorage s) of
        (v, st) \<Rightarrow> s\<lparr>transactions := v, localStorage := st\<rparr>)"

definition setCategories :: "Platform \<Rightarrow> string list SetStateAction \<Rightarrow> App \<Rightarrow> App" where
  "setCategories P val s =
     (case setValue (stringifyStrings P) ''categories'' val (categories s, localStorage s) of
        (v, st) \<Rightarrow> s\<lparr>categories := v, localStorage := st\<rparr>)"

definition setUsers :: "Platform \<Rightarrow> string list SetStateAction \<Rightarrow> App \<Rightarrow> App" where
  "setUsers P val s =
     (case setValue (stringifyStrings P) ''users'' val (users s, localStorage s) of
        (v, st) \<Rightarrow> s\<lparr>users := v, localStorage := st\<rparr>)"

definition setBudget :: "Platform \<Rightarrow> number SetStateAction \<Rightarrow> App \<Rightarrow> App" where
  "setBudget P val s =
     (case setValue (stringifyNumber P) ''budget'' val (budget s, localStorage s) of
        (v, st) \<Rightarrow> s\<lparr>budget := v, localStorage := st\<rparr>)"

subsection \<open>Aggregation\<close>

text \<open>
  \<^verbatim>\<open>transactions.reduce((acc, t) => { if (t.type === 'income') acc.totalIncome += t.amount; ... },
     { totalIncome: 0, totalFixedExpenses: 0, totalVariableExpenses: 0 })\<close>
\<close>

record Totals =
  totalIncome :: number
  totalFixedExpenses :: number
  totalVariableExpenses :: number

definition reducer :: "Totals \<Rightarrow> Transaction \<Rightarrow> Totals" where
  "reducer acc t =
     (let acc1 = (if type t = Income
                  then acc\<lparr>totalIncome := number_add (totalIncome acc) (amount t)\<rparr> else acc);
          acc2 = (if type t = FixedExpense
                  then acc1\<lparr>totalFixedExpenses := number_add (totalFixedExpenses acc1) (amount t)\<rparr>
                  else acc1);
          acc3 = (if type t = VariableExpense
                  then acc2\<lparr>totalVariableExpenses := number_add (totalVariableExpenses acc2) (amount t)\<rparr>
                  else acc2)
      in acc3)"

definition aggregate :: "Transaction list \<Rightarrow> Totals" where
  "aggregate ts = foldl reducer
     \<lparr>totalIncome = Finite 0, totalFixedExpenses = Finite 0, totalVariableExpenses = Finite 0\<rparr> ts"

definition totalExpenses :: "Transaction list \<Rightarrow> number" where
  "totalExpenses ts =
     number_add (totalFixedExpenses (aggregate ts)) (totalVariableExpenses (aggregate ts))"

definition remainingBudget :: "number \<Rightarrow> Transaction list \<Rightarrow> number" where
  "remainingBudget budget' ts =
     number_sub (number_add budget' (totalIncome (aggregate ts))) (totalExpenses ts)"

subsection \<open>Sorting\<close>

text \<open>
  The comparator \<^verbatim>\<open>(a, b) => new Date(b.date).getTime() - new Date(a.date).getTime()\<close>.
  Two time values are whole numbers of magnitude at most \<open>8.64 * 10^15\<close>, so the rounded
  difference has the sign of the exact one, which is all \<^verbatim>\<open>sort\<close> reads; with an
  invalid date the difference is \<^verbatim>\<open>NaN\<close> (\<open>None\<close>).

  \<^verbatim>\<open>Array.prototype.sort\<close> is stable and treats a \<^verbatim>\<open>NaN\<close> from the comparator as 0.
  For a consistent comparator every stable sort returns the same list; \<open>sortBy\<close>
  computes it by stable insertion. (With invalid dates the comparator is not consistent
  and ECMAScript leaves the order to the implementation.)
\<close>

definition compareByDate :: "(string \<Rightarrow> int option) \<Rightarrow> Transaction \<Rightarrow> Transaction \<Rightarrow> int option" where
  "compareByDate gt a b =
     (case (gt (date b), gt (date a)) of (Some tb, Some ta) \<Rightarrow> Some (tb - ta) | _ \<Rightarrow> None)"

fun insertBy :: "('a \<Rightarrow> 'a \<Rightarrow> int option) \<Rightarrow> 'a \<Rightarrow> 'a list \<Rightarrow> 'a list" where
  "insertBy cmp x [] = [x]"
| "insertBy cmp x (y # ys) =
     (if (case cmp x y of None \<Rightarrow> 0 | Some v \<Rightarrow> v) \<le> 0 then x # y # ys
      else y # insertBy cmp x ys)"

definition sortBy :: "('a \<Rightarrow> 'a \<Rightarrow> int option) \<Rightarrow> 'a list \<Rightarrow> 'a list" where
  "sortBy cmp xs = foldr (insertBy cmp) xs []"

subsection \<open>Transactions\<close>

text \<open>
  \<^verbatim>\<open>{ ...transaction, id: crypto.randomUUID() }\<close>: the fresh identifier is the argument
  \<open>uuid\<close>.
\<close>

definition newTransaction :: "TransactionInput \<Rightarrow> string \<Rightarrow> Transaction" where
  "newTransaction transaction uuid =
     \<lparr>description = description transaction, amount = amount transaction,
      type = type transaction, category = category transaction, date = date transaction,
      user = user transaction, id' = uuid\<rparr>"

definition addTransaction :: "Platform \<Rightarrow> string \<Rightarrow> TransactionInput \<Rightarrow> App \<Rightarrow> App" where
  "addTransaction P uuid transaction s =
     setTransactions P
       (Updater (\<lambda>prev. sortBy (compareByDate (getTime P)) (newTransaction transaction uuid # prev))) s"

definition deleteTransaction :: "Platform \<Rightarrow> string \<Rightarrow> App \<Rightarrow> App" where
  "deleteTransaction P i s = setTransactions P (Updater (filter (\<lambda>t. id' t \<noteq> i))) s"

subsection \<open>Categories and users\<close>

definition addCategory :: "Platform \<Rightarrow> string \<Rightarrow> App \<Rightarrow> App" where
  "addCategory P category' s =
     (if category' \<noteq> [] \<and> category' \<notin> set (categories s)
      then setCategories P (Updater (\<lambda>prev. prev @ [category'])) s else s)"

definition deleteCategory :: "Platform \<Rightarrow> string \<Rightarrow> App \<Rightarrow> App" where
  "deleteCategory P categoryToDelete s =
     setCategories P (Updater (filter (\<lambda>c. c \<noteq> categoryToDelete))) s"

definition addUser :: "Platform \<Rightarrow> string \<Rightarrow> App \<Rightarrow> App" where
  "addUser P user' s =
     (if user' \<noteq> [] \<and> user' \<notin> set (users s)
      then setUsers P (Updater (\<lambda>prev. prev @ [user'])) s else s)"

definition deleteUser :: "Platform \<Rightarrow> string \<Rightarrow> App \<Rightarrow> App" where
  "deleteUser P userToDelete s = setUsers P (Updater (filter (\<lambda>u. u \<noteq> userToDelete))) s"

subsection \<open>Export\<close>

text \<open>
  \<^verbatim>\<open>cell.replace(/"/g, '""')\<close> and \<^verbatim>\<open>formatCsvCell\<close>; \<open>CHR 0x22\<close> is the double quote.
  The argument of \<^verbatim>\<open>formatCsvCell\<close> is a string or \<^verbatim>\<open>undefined\<close> (\<open>None\<close>).
\<close>

fun replaceQuotes :: "string \<Rightarrow> string" where
  "replaceQuotes [] = []"
| "replaceQuotes (c # cs) =
     (if c = CHR 0x22 then CHR 0x22 # CHR 0x22 # replaceQuotes cs else c # replaceQuotes cs)"

definition formatCsvCell :: "string option \<Rightarrow> string" where
  "formatCsvCell cellData =
     (let cell = (case cellData of None \<Rightarrow> [] | Some s \<Rightarrow> s)
      in if CHR '','' \<in> set cell then [CHR 0x22] @ replaceQuotes cell @ [CHR 0x22] else cell)"

definition typeString :: "TransactionType \<Rightarrow> string" where
  "typeString k = (case k of Income \<Rightarrow> ''income'' | FixedExpense \<Rightarrow> ''fixed-expense''
     | VariableExpense \<Rightarrow> ''variable-expense'')"

text \<open>
  The array a transaction is mapped to before \<^verbatim>\<open>join(',')\<close>: six strings and the amount,
  a number that \<^verbatim>\<open>join\<close> converts to a string.
\<close>

datatype Cell = StringCell string | NumberCell number

definition rowCells :: "Transaction \<Rightarrow> Cell list" where
  "rowCells t =
     [StringCell (id' t),
      StringCell (formatCsvCell (Some (description t))),
      NumberCell (amount t),
      StringCell (typeString (type t)),
      StringCell (formatCsvCell (category t)),
      StringCell (date t),
      StringCell (formatCsvCell (Some (user t)))]"

definition cellString :: "(number \<Rightarrow> string) \<Rightarrow> Cell \<Rightarrow> string" where
  "cellString toStr c = (case c of StringCell s \<Rightarrow> s | NumberCell n \<Rightarrow> toStr n)"

definition headers :: "string list" where
  "headers = [''ID'', ''Descripci'' @ [CHR 0xC3, CHR 0xB3] @ ''n'', ''Monto'', ''Tipo'',
     ''Categor'' @ [CHR 0xC3, CHR 0xAD] @ ''a'', ''Fecha'', ''Usuario'']"

definition csvRows :: "(number \<Rightarrow> string) \<Rightarrow> Transaction list \<Rightarrow> string list" where
  "csvRows toStr ts =
     join '','' headers # map (\<lambda>t. join '','' (map (cellString toStr) (rowCells t))) ts"

text \<open>
  What the user sees of \<^verbatim>\<open>exportToCsv\<close>: an alert, or the download of a file (name,
  type of the blob, content) through the temporary link that is added to the document,
  clicked and removed.
\<close>

datatype Effect = Alert string | Download string string string

definition exportToCsv :: "Platform \<Rightarrow> App \<Rightarrow> App \<times> Effect list" where
  "exportToCsv P s =
     (if length (transactions s) = 0 then (s, [Alert ''No hay transacciones para exportar.''])
      else
        (let csvContent = join [CHR 0x0A] (csvRows (numberToString P) (transactions s))
         in (s, [Download ''transacciones.csv'' ''text/csv;charset=utf-8;'' csvContent])))"

subsection \<open>Forms\<close>

text \<open>
  \<^verbatim>\<open>BudgetManager.handleUpdate\<close>, \<^verbatim>\<open>TransactionForm.handleSubmit\<close> (the form's fields
  are the arguments, the identifier is the one \<^verbatim>\<open>addTransaction\<close> draws), and the
  \<^verbatim>\<open>handleAdd\<close> of \<^verbatim>\<open>CategoryManager\<close> and of \<^verbatim>\<open>UserManager\<close>. The text
  fields the forms clear afterwards are local to the forms and not part of \<open>App\<close>.
\<close>

definition handleUpdate :: "Platform \<Rightarrow> string \<Rightarrow> App \<Rightarrow> App" where
  "handleUpdate P newBudget s =
     (let v = parseFloat newBudget
      in if \<not> isNaN v \<and> number_ge v (Finite 0) then setBudget P (Value v) s else s)"

definition handleSubmit ::
  "Platform \<Rightarrow> string \<Rightarrow> string \<Rightarrow> string \<Rightarrow> TransactionType \<Rightarrow> string \<Rightarrow> string \<Rightarrow> string \<Rightarrow> App \<Rightarrow> App" where
  "handleSubmit P uuid description' amount' type' category' date' user' s =
     (if description' = [] \<or> amount' = [] \<or> date' = [] \<or> user' = [] then s
      else addTransaction P uuid
             \<lparr>description = description', amount = parseFloat amount', type = type',
              category = (if type' \<noteq> Income then Some category' else None),
              date = date', user = user'\<rparr> s)"

definition handleAddCategory :: "Platform \<Rightarrow> string \<Rightarrow> App \<Rightarrow> App" where
  "handleAddCategory P newCategory s = addCategory P (trim newCategory) s"

definition handleAddUser :: "Platform \<Rightarrow> string \<Rightarrow> App \<Rightarrow> App" where
  "handleAddUser P newUser s = addUser P (trim newUser) s"

section \<open>Notions the properties are stated with\<close>

subsection \<open>Sequences of calls\<close>

datatype Call = AddTransaction TransactionInput string | DeleteTransaction string

fun call :: "Platform \<Rightarrow> App \<Rightarrow> Call \<Rightarrow> App" where
  "call P s (AddTransaction t uuid) = addTransaction P uuid t s"
| "call P s (DeleteTransaction i) = deleteTransaction P i s"

definition calls :: "Platform \<Rightarrow> App \<Rightarrow> Call list \<Rightarrow> App" where
  "calls P s cs = foldl (call P) s cs"

text \<open>
  The transactions a sequence of calls has inserted and not deleted, the last inserted
  first (\<open>newestFirst\<close>) and in the order of their insertion (\<open>insertionOrder\<close>).
\<close>

fun prependOnly :: "Transaction list \<Rightarrow> Call \<Rightarrow> Transaction list" where
  "prependOnly l (AddTransaction t uuid) = newTransaction t uuid # l"
| "prependOnly l (DeleteTransaction i) = filter (\<lambda>t. id' t \<noteq> i) l"

definition newestFirst :: "Call list \<Rightarrow> Transaction list" where
  "newestFirst cs = foldl prependOnly [] cs"

definition insertionOrder :: "Call list \<Rightarrow> Transaction list" where
  "insertionOrder cs = rev (newestFirst cs)"

text \<open>
  A transaction of the date with time value \<open>k\<close>; a collection sorted by date descending
  (all its dates valid when it has two elements or more); a call with a valid date; and
  the key the proofs sort by, the negated time value.
\<close>

definition onDate :: "(string \<Rightarrow> int option) \<Rightarrow> int \<Rightarrow> Transaction \<Rightarrow> bool" where
  "onDate gt k t = (gt (date t) = Some k)"

definition sortedByDateDesc :: "(string \<Rightarrow> int option) \<Rightarrow> Transaction list \<Rightarrow> bool" where
  "sortedByDateDesc gt ts =
     sorted_wrt (\<lambda>a b. case (gt (date a), gt (date b)) of (Some x, Some y) \<Rightarrow> y \<le> x | _ \<Rightarrow> False) ts"

definition validCall :: "(string \<Rightarrow> int option) \<Rightarrow> Call \<Rightarrow> bool" where
  "validCall gt c = (case c of AddTransaction t uuid \<Rightarrow> gt (date t) \<noteq> None | DeleteTransaction i \<Rightarrow> True)"

definition dateKey :: "(string \<Rightarrow> int option) \<Rightarrow> Transaction \<Rightarrow> int" where
  "dateKey gt t = (case gt (date t) of Some ms \<Rightarrow> - ms | None \<Rightarrow> 0)"

subsection \<open>Exact sums\<close>

text \<open>The amounts of one kind, in collection order, and the exact sum of a list of amounts.\<close>

definition amountsOf :: "TransactionType \<Rightarrow> Transaction list \<Rightarrow> number list" where
  "amountsOf k ts = map amount (filter (\<lambda>t. type t = k) ts)"

definition exactSum :: "number list \<Rightarrow> rat" where
  "exactSum xs = sum_list (map valueOf xs)"

subsection \<open>The quoting rule in the specification's words\<close>

text \<open>
  A field wrapped in double quotes with its double quotes doubled, and the rule that a
  field is so wrapped if and only if it contains a comma. The raw fields of a row are the
  seven values of the transaction, an absent category being the empty string.
\<close>

definition quoted :: "string \<Rightarrow> string" where
  "quoted s = [CHR 0x22] @ concat (map (\<lambda>c. if c = CHR 0x22 then [CHR 0x22, CHR 0x22] else [c]) s)
     @ [CHR 0x22]"

definition quotedIfComma :: "string \<Rightarrow> string" where
  "quotedIfComma s = (if CHR '','' \<in> set s then quoted s else s)"

definition rawCells :: "Transaction \<Rightarrow> Cell list" where
  "rawCells t =
     [StringCell (id' t),
      StringCell (description t),
      NumberCell (amount t),
      StringCell (typeString (type t)),
      StringCell (case category t of None \<Rightarrow> [] | Some c \<Rightarrow> c),
      StringCell (date t),
      StringCell (user t)]"

definition quoteRule :: "Cell \<Rightarrow> Cell" where
  "quoteRule c = (case c of StringCell s \<Rightarrow> StringCell (quotedIfComma s) | NumberCell n \<Rightarrow> NumberCell n)"

subsection \<open>Saving a value\<close>

text \<open>
  The value a call of the setter saves (the value itself, or what the updater makes of
  the current one); that the write of a value succeeds: \<^verbatim>\<open>JSON.stringify\<close> yields a
  text and \<^verbatim>\<open>setItem\<close> takes it; and a number that is a finite binary64 value
  (JSON has no text for \<^verbatim>\<open>NaN\<close> and the infinities).
\<close>

definition newValue :: "'a SetStateAction \<Rightarrow> 'a \<Rightarrow> 'a" where
  "newValue val old = (case val of Updater f \<Rightarrow> f old | Value v \<Rightarrow> v)"

definition stored :: "('a \<Rightarrow> string option) \<Rightarrow> string \<Rightarrow> 'a \<Rightarrow> Storage \<Rightarrow> bool" where
  "stored stringify key v st =
     (case stringify v of None \<Rightarrow> False | Some w \<Rightarrow> setItem st key w \<noteq> None)"

definition finiteDouble :: "number \<Rightarrow> bool" where
  "finiteDouble x = (case x of Finite r \<Rightarrow> roundDouble r = Finite r | _ \<Rightarrow> False)"

section \<open>A reference platform\<close>

text \<open>
  One platform, to run the program on concrete inputs: dates in the date-only ISO form
  \<^verbatim>\<open>YYYY-MM-DD\<close> that a date input yields (other strings are not dates here), the
  shortest decimal text that reads back as the number, and JSON text written the way
  \<^verbatim>\<open>JSON.stringify\<close> writes these values, with the reader \<^verbatim>\<open>JSON.parse\<close> for the
  same values. The properties of the program's own functions hold on every platform and
  take their examples here; the round trip through the store is proved for this writer
  and reader.
\<close>

subsection \<open>Date-only ISO strings\<close>

definition daysFromCivil :: "int \<Rightarrow> int \<Rightarrow> int \<Rightarrow> int" where
  "daysFromCivil y m d =
     (let y' = (if m \<le> 2 then y - 1 else y);
          era = y' div 400;
          yoe = y' - era * 400;
          doy = (153 * (if 2 < m then m - 3 else m + 9) + 2) div 5 + d - 1;
          doe = yoe * 365 + yoe div 4 - yoe div 100 + doy
      in era * 146097 + doe - 719468)"

definition daysInMonth :: "int \<Rightarrow> int \<Rightarrow> int" where
  "daysInMonth y m =
     (if m = 2 then (if y mod 4 = 0 \<and> (y mod 100 \<noteq> 0 \<or> y mod 400 = 0) then 29 else 28)
      else if m \<in> set [4, 6, 9, 11] then 30 else 31)"

definition isoDateTime :: "string \<Rightarrow> int option" where
  "isoDateTime s =
     (if length s = 10 \<and> s ! 4 = CHR ''-'' \<and> s ! 7 = CHR ''-''
         \<and> list_all isDigit (take 4 s @ take 2 (drop 5 s) @ drop 8 s)
      then
        (let y = digitsValue (take 4 s);
             m = digitsValue (take 2 (drop 5 s));
             d = digitsValue (drop 8 s)
         in if 1 \<le> m \<and> m \<le> 12 \<and> 1 \<le> d \<and> d \<le> daysInMonth y m
            then Some (daysFromCivil y m d * 86400000) else None)
      else None)"

subsection \<open>Number to string\<close>

definition digitChar :: "int \<Rightarrow> char" where
  "digitChar d = char_of (48 + d)"

function intDigits :: "int \<Rightarrow> string" where
  "intDigits n = (if n < 10 then [digitChar n] else intDigits (n div 10) @ [digitChar (n mod 10)])"
  by pat_completeness auto
termination
  by (relation "measure nat") auto

function ilog10Int :: "int \<Rightarrow> int" where
  "ilog10Int n = (if n < 10 then 0 else 1 + ilog10Int (n div 10))"
  by pat_completeness auto
termination
  by (relation "measure nat") auto

definition ilog10 :: "rat \<Rightarrow> int" where
  "ilog10 x =
     (let d = (if 1 \<le> x then ilog10Int \<lfloor>x\<rfloor> else - ilog10Int \<lfloor>1 / x\<rfloor>)
      in if 10 powi d \<le> x then d else d - 1)"

text \<open>
  The decimal with \<open>k\<close> digits next to \<open>x\<close> that rounds to \<open>x\<close>, if there is one; the
  shortest such decimal, looked for with 1 to 17 digits. Seventeen digits are enough for
  every binary64 value; a search that ends without a decimal yields the exact decimal
  expansion of \<open>x\<close> (a multiple of a power of two).
\<close>

definition exactDecimal :: "rat \<Rightarrow> int \<times> int" where
  "exactDecimal x =
     (let q = max (ilog2 \<bar>x\<bar> - 52) (- 1074);
          n = roundHalfEven (x / 2 powi q)
      in if 0 \<le> q then (n * 2 ^ nat q, 0) else (n * 5 ^ nat (- q), q))"

definition candidateAt :: "rat \<Rightarrow> int \<Rightarrow> nat \<Rightarrow> (int \<times> int) option" where
  "candidateAt x n k =
     (let e = n - int k;
          f = \<lfloor>x / 10 powi e\<rfloor>;
          lo = of_int f * 10 powi e;
          hi = of_int (f + 1) * 10 powi e
      in if roundDouble lo = Finite x then
           (if roundDouble hi = Finite x \<and> (hi - x < x - lo \<or> (hi - x = x - lo \<and> odd f))
            then Some (f + 1, e) else Some (f, e))
         else if roundDouble hi = Finite x then Some (f + 1, e) else None)"

fun shortestFrom :: "rat \<Rightarrow> int \<Rightarrow> nat \<Rightarrow> nat \<Rightarrow> int \<times> int" where
  "shortestFrom x n k 0 = exactDecimal x"
| "shortestFrom x n k (Suc fuel) =
     (case candidateAt x n k of Some c \<Rightarrow> c | None \<Rightarrow> shortestFrom x n (Suc k) fuel)"

definition positiveToString :: "rat \<Rightarrow> string" where
  "positiveToString x =
     (case shortestFrom x (ilog10 x + 1) 1 17 of (s, e) \<Rightarrow>
        (let ds = intDigits s;
             z = length (takeWhile (\<lambda>c. c = CHR ''0'') (rev ds));
             digits = take (length ds - z) ds;
             k = int (length digits);
             n = e + int z + k
         in if - 6 < n \<and> n \<le> 21 then
              (if k \<le> n then digits @ replicate (nat (n - k)) CHR ''0''
               else if 0 < n then take (nat n) digits @ ''.'' @ drop (nat n) digits
               else ''0.'' @ replicate (nat (- n)) CHR ''0'' @ digits)
            else
              (let es = (if n - 1 < 0 then ''-'' else ''+'') @ intDigits \<bar>n - 1\<bar>
               in if k = 1 then digits @ ''e'' @ es
                  else take 1 digits @ ''.'' @ drop 1 digits @ ''e'' @ es)))"

definition numberToStringRef :: "number \<Rightarrow> string" where
  "numberToStringRef x = (case x of
       NaN \<Rightarrow> ''NaN''
     | Infinity b \<Rightarrow> (if b then ''Infinity'' else ''-Infinity'')
     | Finite r \<Rightarrow> if r = 0 then ''0'' else if r < 0 then ''-'' @ positiveToString (- r)
                    else positiveToString r)"

subsection \<open>JSON text\<close>

definition hexDigit :: "int \<Rightarrow> char" where
  "hexDigit d = (if d < 10 then char_of (48 + d) else char_of (87 + d))"

definition jsonEscape :: "char \<Rightarrow> string" where
  "jsonEscape c =
     (if c = CHR 0x22 then [CHR 0x5C, CHR 0x22]
      else if c = CHR 0x5C then [CHR 0x5C, CHR 0x5C]
      else if c = CHR 0x08 then [CHR 0x5C, CHR ''b'']
      else if c = CHR 0x09 then [CHR 0x5C, CHR ''t'']
      else if c = CHR 0x0A then [CHR 0x5C, CHR ''n'']
      else if c = CHR 0x0C then [CHR 0x5C, CHR ''f'']
      else if c = CHR 0x0D then [CHR 0x5C, CHR ''r'']
      else if (of_char c :: int) < 32
        then [CHR 0x5C, CHR ''u'', CHR ''0'', CHR ''0'', hexDigit (of_char c div 16),
              hexDigit (of_char c mod 16)]
      else [c])"

definition jsonString :: "string \<Rightarrow> string" where
  "jsonString s = [CHR 0x22] @ concat (map jsonEscape s) @ [CHR 0x22]"

definition jsonNumber :: "number \<Rightarrow> string" where
  "jsonNumber x = (case x of Finite r \<Rightarrow> numberToStringRef x | _ \<Rightarrow> ''null'')"

definition jsonMember :: "string \<Rightarrow> string \<Rightarrow> string" where
  "jsonMember k v = jsonString k @ '':'' @ v"

definition jsonTransaction :: "Transaction \<Rightarrow> string" where
  "jsonTransaction t =
     ''{'' @ join '',''
       ([jsonMember ''description'' (jsonString (description t)),
         jsonMember ''amount'' (jsonNumber (amount t)),
         jsonMember ''type'' (jsonString (typeString (type t)))]
        @ (case category t of None \<Rightarrow> [] | Some c \<Rightarrow> [jsonMember ''category'' (jsonString c)])
        @ [jsonMember ''date'' (jsonString (date t)),
           jsonMember ''user'' (jsonString (user t)),
           jsonMember ''id'' (jsonString (id' t))])
     @ ''}''"

definition jsonArray :: "string list \<Rightarrow> string" where
  "jsonArray xs = ''['' @ join '','' xs @ '']''"

text \<open>A JSON number literal, read back as a number.\<close>

definition parseJsonNumber :: "string \<Rightarrow> number option" where
  "parseJsonNumber s =
     (let u = (case s of c # r \<Rightarrow> if c = CHR ''-'' then r else s | [] \<Rightarrow> s);
          ip = takeWhile isDigit u;
          r1 = dropWhile isDigit u;
          fp = (case r1 of c # r \<Rightarrow> if c = CHR ''.'' then takeWhile isDigit r else [] | [] \<Rightarrow> []);
          r2 = (case r1 of c # r \<Rightarrow> if c = CHR ''.'' then dropWhile isDigit r else r1 | [] \<Rightarrow> r1);
          ex = (case r2 of c # r \<Rightarrow>
                  if c = CHR ''e'' \<or> c = CHR ''E''
                  then (case signPart r of (neg, d) \<Rightarrow> d) else ''x''
                | [] \<Rightarrow> ''0'')
      in if ip = [] \<or> (1 < length ip \<and> hd ip = CHR ''0'')
            \<or> (r1 \<noteq> [] \<and> hd r1 = CHR ''.'' \<and> fp = [])
            \<or> ex = [] \<or> \<not> list_all isDigit ex
         then None else Some (parseFloat s))"

subsection \<open>Reading JSON text\<close>

text \<open>
  \<^verbatim>\<open>JSON.parse\<close> at the three types the program stores. The text is first cut into
  tokens: the six punctuation marks, string literals, and literals made of letters,
  digits, signs and the point (numbers, \<^verbatim>\<open>true\<close>, \<^verbatim>\<open>false\<close>, \<^verbatim>\<open>null\<close>); white
  space between tokens is skipped.
\<close>

datatype Token = LBracket | RBracket | LBrace | RBrace | Comma | Colon
  | StringToken string | LiteralToken string

text \<open>
  Inside a string literal a character stands for itself or is written as an escape. An
  escape \<^verbatim>\<open>\uXXXX\<close> names a UTF-16 code unit; it becomes the UTF-8 bytes of its code
  point, two escapes that form a surrogate pair becoming the four bytes of the one code
  point they denote.
\<close>

datatype Unit = Byte char | Escaped int

definition hexValue :: "char \<Rightarrow> int option" where
  "hexValue c =
     (let n = (of_char c :: int)
      in if 48 \<le> n \<and> n \<le> 57 then Some (n - 48)
         else if 65 \<le> n \<and> n \<le> 70 then Some (n - 55)
         else if 97 \<le> n \<and> n \<le> 102 then Some (n - 87)
         else None)"

definition utf8 :: "int \<Rightarrow> string" where
  "utf8 n =
     (if n < 128 then [char_of n]
      else if n < 2048 then [char_of (192 + n div 64), char_of (128 + n mod 64)]
      else if n < 65536 then
        [char_of (224 + n div 4096), char_of (128 + n div 64 mod 64), char_of (128 + n mod 64)]
      else [char_of (240 + n div 262144), char_of (128 + n div 4096 mod 64),
            char_of (128 + n div 64 mod 64), char_of (128 + n mod 64)])"

fun decodeUnits :: "Unit list \<Rightarrow> string" where
  "decodeUnits [] = []"
| "decodeUnits (Byte c # us) = c # decodeUnits us"
| "decodeUnits (Escaped h # Escaped l # us) =
     (if 55296 \<le> h \<and> h < 56320 \<and> 56320 \<le> l \<and> l < 57344
      then utf8 (65536 + (h - 55296) * 1024 + (l - 56320)) @ decodeUnits us
      else utf8 h @ decodeUnits (Escaped l # us))"
| "decodeUnits (Escaped h # us) = utf8 h @ decodeUnits us"

definition simpleEscape :: "char \<Rightarrow> char option" where
  "simpleEscape e =
     (if e = CHR 0x22 then Some (CHR 0x22)
      else if e = CHR 0x5C then Some (CHR 0x5C)
      else if e = CHR ''/'' then Some (CHR ''/'')
      else if e = CHR ''b'' then Some (CHR 0x08)
      else if e = CHR ''f'' then Some (CHR 0x0C)
      else if e = CHR ''n'' then Some (CHR 0x0A)
      else if e = CHR ''r'' then Some (CHR 0x0D)
      else if e = CHR ''t'' then Some (CHR 0x09)
      else None)"

text \<open>The unit that stands for a character in the text \<open>jsonEscape\<close> writes for it.\<close>

definition unitOf :: "char \<Rightarrow> Unit" where
  "unitOf c =
     (if c \<in> set [CHR 0x08, CHR 0x09, CHR 0x0A, CHR 0x0C, CHR 0x0D] then Byte c
      else if (of_char c :: int) < 32 then Escaped (of_char c) else Byte c)"

text \<open>
  The scanner reads one character at a time. Outside a literal a character is skipped,
  opens a string or a literal, or is a punctuation mark; any other character is an
  error (\<open>None\<close>), as is a control character inside a string, an unknown escape, or
  the end of the text inside a string.
\<close>

definition isJsonSpace :: "char \<Rightarrow> bool" where
  "isJsonSpace c = (c \<in> set [CHR 0x20, CHR 0x09, CHR 0x0A, CHR 0x0D])"

definition isLiteralChar :: "char \<Rightarrow> bool" where
  "isLiteralChar c =
     (let n = (of_char c :: int)
      in (48 \<le> n \<and> n \<le> 57) \<or> (65 \<le> n \<and> n \<le> 90) \<or> (97 \<le> n \<and> n \<le> 122)
         \<or> c = CHR ''+'' \<or> c = CHR ''-'' \<or> c = CHR ''.'')"

datatype LexState = Outside | InLiteral string | InString "Unit list" | InEscape "Unit list"
  | InUnicode "Unit list" "int list"

definition outsideStep :: "char \<Rightarrow> (Token list \<times> LexState) option" where
  "outsideStep c =
     (if isJsonSpace c then Some ([], Outside)
      else if c = CHR 0x22 then Some ([], InString [])
      else if isLiteralChar c then Some ([], InLiteral [c])
      else if c = CHR ''['' then Some ([LBracket], Outside)
      else if c = CHR '']'' then Some ([RBracket], Outside)
      else if c = CHR ''{'' then Some ([LBrace], Outside)
      else if c = CHR ''}'' then Some ([RBrace], Outside)
      else if c = CHR '','' then Some ([Comma], Outside)
      else if c = CHR '':'' then Some ([Colon], Outside)
      else None)"

fun lexJson :: "LexState \<Rightarrow> string \<Rightarrow> Token list option" where
  "lexJson Outside [] = Some []"
| "lexJson (InLiteral acc) [] = Some [LiteralToken (rev acc)]"
| "lexJson (InString acc) [] = None"
| "lexJson (InEscape acc) [] = None"
| "lexJson (InUnicode acc hs) [] = None"
| "lexJson Outside (c # cs) =
     (case outsideStep c of
        None \<Rightarrow> None
      | Some (ts, st) \<Rightarrow> map_option (\<lambda>r. ts @ r) (lexJson st cs))"
| "lexJson (InLiteral acc) (c # cs) =
     (if isLiteralChar c then lexJson (InLiteral (c # acc)) cs
      else (case outsideStep c of
              None \<Rightarrow> None
            | Some (ts, st) \<Rightarrow> map_option (\<lambda>r. LiteralToken (rev acc) # ts @ r) (lexJson st cs)))"
| "lexJson (InString acc) (c # cs) =
     (if c = CHR 0x22 then map_option (\<lambda>r. StringToken (decodeUnits (rev acc)) # r) (lexJson Outside cs)
      else if c = CHR 0x5C then lexJson (InEscape acc) cs
      else if (of_char c :: int) < 32 then None
      else lexJson (InString (Byte c # acc)) cs)"
| "lexJson (InEscape acc) (c # cs) =
     (if c = CHR ''u'' then lexJson (InUnicode acc []) cs
      else (case simpleEscape c of
              None \<Rightarrow> None
            | Some b \<Rightarrow> lexJson (InString (Byte b # acc)) cs))"
| "lexJson (InUnicode acc hs) (c # cs) =
     (case hexValue c of
        None \<Rightarrow> None
      | Some h \<Rightarrow>
          if length hs = 3
          then lexJson (InString (Escaped (foldl (\<lambda>n d. 16 * n + d) 0 (hs @ [h])) # acc)) cs
          else lexJson (InUnicode acc (hs @ [h])) cs)"

text \<open>An array of strings: \<^verbatim>\<open>[]\<close>, or strings separated by commas between brackets.\<close>

fun stringElements :: "Token list \<Rightarrow> string list option" where
  "stringElements [RBracket] = Some []"
| "stringElements (Comma # StringToken s # ts) = map_option (\<lambda>r. s # r) (stringElements ts)"
| "stringElements _ = None"

definition JSON_parse_strings :: "string \<Rightarrow> string list option" where
  "JSON_parse_strings s =
     (case lexJson Outside s of
        Some (LBracket # ts) \<Rightarrow>
          (case ts of
             [RBracket] \<Rightarrow> Some []
           | StringToken x # ts' \<Rightarrow> map_option (\<lambda>r. x # r) (stringElements ts')
           | _ \<Rightarrow> None)
      | _ \<Rightarrow> None)"

text \<open>A number: one literal that is a JSON number.\<close>

definition JSON_parse_number :: "string \<Rightarrow> number option" where
  "JSON_parse_number s =
     (case lexJson Outside s of Some [LiteralToken t] \<Rightarrow> parseJsonNumber t | _ \<Rightarrow> None)"

text \<open>
  An array of transactions. An object of the array is a sequence of members
  \<^verbatim>\<open>"name": value\<close> between braces, each value a string or a number; of two members
  with the same name the later one counts. A transaction is read from the members named
  after its fields, \<^verbatim>\<open>category\<close> being optional; an object that lacks a field, or has
  a value of another kind in it, is no transaction (\<open>None\<close>: the typed model has no
  counterpart for it).
\<close>

definition isScalar :: "Token \<Rightarrow> bool" where
  "isScalar t = (case t of StringToken _ \<Rightarrow> True | LiteralToken _ \<Rightarrow> True | _ \<Rightarrow> False)"

fun members :: "Token list \<Rightarrow> (string \<times> Token) list option" where
  "members [] = Some []"
| "members (StringToken k # Colon # v # ts) =
     (if isScalar v then
        (case ts of
           [] \<Rightarrow> Some [(k, v)]
         | t # ts' \<Rightarrow>
             if t = Comma \<and> ts' \<noteq> [] then map_option (\<lambda>r. (k, v) # r) (members ts') else None)
      else None)"
| "members _ = None"

function (sequential) objects :: "Token list \<Rightarrow> (string \<times> Token) list list option" where
  "objects (LBrace # r) =
     (case members (takeWhile (\<lambda>t. t \<noteq> RBrace) r) of
        None \<Rightarrow> None
      | Some m \<Rightarrow>
          (case dropWhile (\<lambda>t. t \<noteq> RBrace) r of
             RBrace # r' \<Rightarrow>
               (if r' = [RBracket] then Some [m]
                else (case r' of
                        Comma # r'' \<Rightarrow> map_option (\<lambda>os. m # os) (objects r'')
                      | _ \<Rightarrow> None))
           | _ \<Rightarrow> None))"
| "objects _ = None"
  by pat_completeness auto
termination
proof (relation "measure length")
  show "wf (measure length)" by simp
next
  fix r :: "Token list" and m x21 x22 x21a x22a
  assume "dropWhile (\<lambda>t. t \<noteq> RBrace) r = x21 # x22" and "x22 = x21a # x22a"
  moreover have "length (dropWhile (\<lambda>t. t \<noteq> RBrace) r) \<le> length r" by (rule length_dropWhile_le)
  ultimately show "(x22a, LBrace # r) \<in> measure length" by simp
qed

definition typeOfString :: "string \<Rightarrow> TransactionType option" where
  "typeOfString s =
     (if s = ''income'' then Some Income
      else if s = ''fixed-expense'' then Some FixedExpense
      else if s = ''variable-expense'' then Some VariableExpense
      else None)"

definition stringMember :: "(string \<times> Token) list \<Rightarrow> string \<Rightarrow> string option" where
  "stringMember ms k = (case map_of (rev ms) k of Some (StringToken s) \<Rightarrow> Some s | _ \<Rightarrow> None)"

definition numberMember :: "(string \<times> Token) list \<Rightarrow> string \<Rightarrow> number option" where
  "numberMember ms k = (case map_of (rev ms) k of Some (LiteralToken s) \<Rightarrow> parseJsonNumber s | _ \<Rightarrow> None)"

definition transactionOf :: "(string \<times> Token) list \<Rightarrow> Transaction option" where
  "transactionOf ms =
     Option.bind (stringMember ms ''description'') (\<lambda>d.
     Option.bind (numberMember ms ''amount'') (\<lambda>a.
     Option.bind (Option.bind (stringMember ms ''type'') typeOfString) (\<lambda>k.
     Option.bind (stringMember ms ''date'') (\<lambda>dt.
     Option.bind (stringMember ms ''user'') (\<lambda>u.
     Option.bind (stringMember ms ''id'') (\<lambda>i.
       if map_of (rev ms) ''category'' \<noteq> None \<and> stringMember ms ''category'' = None then None
       else Some \<lparr>description = d, amount = a, type = k, category = stringMember ms ''category'',
              date = dt, user = u, id' = i\<rparr>))))))"

definition JSON_parse_transactions :: "string \<Rightarrow> Transaction list option" where
  "JSON_parse_transactions s =
     (case lexJson Outside s of
        Some (LBracket # ts) \<Rightarrow>
          (if ts = [RBracket] then Some []
           else (case objects ts of None \<Rightarrow> None | Some os \<Rightarrow> those (map transactionOf os)))
      | _ \<Rightarrow> None)"

text \<open>
  The tokens of the object that \<open>jsonTransaction\<close> writes for a transaction, between
  and with its braces, and the members they spell.
\<close>

definition memberTokens :: "Transaction \<Rightarrow> Token list" where
  "memberTokens t =
     [StringToken ''description'', Colon, StringToken (description t), Comma,
      StringToken ''amount'', Colon, LiteralToken (jsonNumber (amount t)), Comma,
      StringToken ''type'', Colon, StringToken (typeString (type t)), Comma]
     @ (case category t of None \<Rightarrow> [] | Some c \<Rightarrow> [StringToken ''category'', Colon, StringToken c, Comma])
     @ [StringToken ''date'', Colon, StringToken (date t), Comma,
        StringToken ''user'', Colon, StringToken (user t), Comma,
        StringToken ''id'', Colon, StringToken (id' t)]"

definition objectTokens :: "Transaction \<Rightarrow> Token list" where
  "objectTokens t = LBrace # memberTokens t @ [RBrace]"

definition membersOf :: "Transaction \<Rightarrow> (string \<times> Token) list" where
  "membersOf t =
     [(''description'', StringToken (description t)),
      (''amount'', LiteralToken (jsonNumber (amount t))),
      (''type'', StringToken (typeString (type t)))]
     @ (case category t of None \<Rightarrow> [] | Some c \<Rightarrow> [(''category'', StringToken c)])
     @ [(''date'', StringToken (date t)),
        (''user'', StringToken (user t)),
        (''id'', StringToken (id' t))]"

definition referencePlatform :: Platform where
  "referencePlatform =
     \<lparr>getTime = isoDateTime,
      numberToString = numberToStringRef,
      stringifyTransactions = (\<lambda>ts. Some (jsonArray (map jsonTransaction ts))),
      stringifyStrings = (\<lambda>xs. Some (jsonArray (map jsonString xs))),
      stringifyNumber = (\<lambda>x. Some (jsonNumber x))\<rparr>"

section \<open>Example data\<close>

definition emptyApp :: App where
  "emptyApp = \<lparr>transactions = [], categories = DEFAULT_CATEGORIES, users = DEFAULT_USERS,
     budget = DEFAULT_BUDGET, localStorage = \<lparr>items = [], quota = 5000\<rparr>\<rparr>"

definition sample :: "string \<Rightarrow> number \<Rightarrow> TransactionType \<Rightarrow> string \<Rightarrow> Transaction" where
  "sample i a k d =
     \<lparr>description = ''item'', amount = a, type = k,
      category = (if k = Income then None else Some ''Hogar''), date = d,
      user = ''Usuario 1'', id' = i\<rparr>"

definition ledger :: "Transaction list" where
  "ledger = [sample ''a'' (Finite 1500) Income ''2024-01-05'',
             sample ''b'' (Finite 300) VariableExpense ''2024-01-03'',
             sample ''c'' (Finite 800) FixedExpense ''2024-01-01'']"

definition bigLedger :: "Transaction list" where
  "bigLedger = [sample ''a'' (Finite 1) VariableExpense ''2024-01-05'',
                sample ''b'' (Finite 1) FixedExpense ''2024-01-03'',
                sample ''c'' (Finite 9007199254740992) Income ''2024-01-01'']"

definition bigExpenses :: "Transaction list" where
  "bigExpenses = [sample ''a'' (Finite 9007199254740992) FixedExpense ''2024-01-05'',
                  sample ''b'' (Finite 1) VariableExpense ''2024-01-03'']"

definition input :: "string \<Rightarrow> string \<Rightarrow> TransactionInput" where
  "input d dt = \<lparr>description = d, amount = Finite 10, type = Income, category = None,
     date = dt, user = ''Usuario 1''\<rparr>"

definition twoSameDay :: "Call list" where
  "twoSameDay = [AddTransaction (input ''first'' ''2024-01-05'') ''id-1'',
                 AddTransaction (input ''second'' ''2024-01-05'') ''id-2'']"

definition threeDays :: "Call list" where
  "threeDays = [AddTransaction (input ''first'' ''2024-01-03'') ''id-1'',
                AddTransaction (input ''second'' ''2024-01-05'') ''id-2'',
                AddTransaction (input ''third'' ''2024-01-03'') ''id-3'',
                DeleteTransaction ''id-2'',
                AddTransaction (input ''fourth'' ''2024-01-04'') ''id-4'',
                AddTransaction (input ''fifth'' ''2024-01-05'') ''id-5'']"

definition fullStorage :: Storage where
  "fullStorage = \<lparr>items = [], quota = 0\<rparr>"

definition ledgerApp :: App where
  "ledgerApp = emptyApp\<lparr>transactions := ledger\<rparr>"

definition groceriesApp :: App where
  "groceriesApp = emptyApp\<lparr>transactions :=
     [\<lparr>description = ''Groceries, weekly'', amount = Finite 300, type = VariableExpense,
       category = Some ''Comida'', date = ''2024-01-03'', user = ''Usuario 1'', id' = ''id-2''\<rparr>,
      \<lparr>description = [CHR 0x22] @ ''Salary'' @ [CHR 0x22], amount = Finite 1500, type = Income,
       category = None, date = ''2024-01-05'', user = ''Usuario 2'', id' = ''id-1''\<rparr>]\<rparr>"

definition decimalLedger :: "Transaction list" where
  "decimalLedger = [sample ''a'' (parseFloat ''0.3'') VariableExpense ''2024-01-05'',
                    sample ''b'' (parseFloat ''0.2'') FixedExpense ''2024-01-03'',
                    sample ''c'' (parseFloat ''0.1'') Income ''2024-01-01'']"

section \<open>Rounding is exact on whole numbers up to \<open>2^53\<close>\<close>

lemma ilog2_le:
  assumes "0 < x"
  shows "2 powi (ilog2 x) \<le> x"
proof -
  obtain p q where pq: "quotient_of x = (p, q)" by (cases "quotient_of x")
  have q: "0 < q" using pq quotient_of_denom_pos by blast
  have x: "x = of_int p / of_int q" using pq quotient_of_div by blast
  have p: "0 < p" using assms q x by (simp add: zero_less_divide_iff)
  let ?d = "bitlen p - bitlen q"
  show ?thesis
  proof (cases "2 powi ?d \<le> x")
    case True
    then show ?thesis by (simp add: ilog2_def pq)
  next
    case False
    have bp: "(2::int) ^ nat (bitlen p - 1) \<le> p" using bitlen_bounds[OF p] by simp
    have bq: "q < (2::int) ^ nat (bitlen q)" using bitlen_bounds[OF q] by simp
    have bp1: "1 \<le> bitlen p" using p bitlen_eq_zero_iff[of p] bitlen_nonneg[of p] by linarith
    have "(2::rat) powi (bitlen p - 1) = of_int (2 ^ nat (bitlen p - 1))"
      using bp1 by (simp add: power_int_def)
    then have A: "(2::rat) powi (bitlen p - 1) \<le> of_int p"
      using bp by (metis of_int_le_iff)
    have "(2::rat) powi (bitlen q) = of_int (2 ^ nat (bitlen q))"
      using bitlen_nonneg[of q] by (simp add: power_int_def)
    then have B: "of_int q \<le> (2::rat) powi (bitlen q)"
      using bq by (metis of_int_le_iff less_imp_le)
    have "(2::rat) powi (?d - 1) = 2 powi (bitlen p - 1) / 2 powi (bitlen q)"
      using power_int_diff[of "2::rat" "bitlen p - 1" "bitlen q"] by (simp add: algebra_simps)
    also have "\<dots> \<le> of_int p / of_int q"
      using A B q p by (intro frac_le) auto
    finally have C: "(2::rat) powi (?d - 1) \<le> of_int p / of_int q" .
    have "ilog2 x = ?d - 1" using False by (simp add: ilog2_def pq)
    then show ?thesis using C x by simp
  qed
qed

lemma roundHalfEven_of_int: "roundHalfEven (of_int k) = k"
  by (simp add: roundHalfEven_def)

lemma roundDouble_of_int:
  assumes "\<bar>n\<bar> \<le> 2 ^ 53"
  shows "roundDouble (of_int n) = Finite (of_int n)"
proof (cases "n = 0")
  case True
  then show ?thesis by (simp add: roundDouble_def)
next
  case False
  let ?x = "of_int n :: rat"
  let ?e = "ilog2 \<bar>?x\<bar>"
  let ?q = "max (?e - 52) (- 1074)"
  have pos: "0 < \<bar>?x\<bar>" using False by simp
  have lower: "2 powi ?e \<le> \<bar>?x\<bar>" by (rule ilog2_le[OF pos])
  have upper: "\<bar>?x\<bar> \<le> 2 ^ 53" using assms
    by (metis of_int_abs of_int_le_iff of_int_numeral of_int_power)
  from lower upper have "(2::rat) powi ?e \<le> 2 powi 53" by simp
  then have e53: "?e \<le> 53"
    using power_int_le_imp_le_exp[of "2::rat" ?e 53] by simp
  have whole: "\<exists>k. ?x / 2 powi ?q = of_int k"
  proof (cases "?q \<le> 0")
    case True
    then have "(2::rat) powi ?q = 1 / 2 ^ nat (- ?q)"
      by (metis power_int_minus_divide power_int_nonneg_exp neg_0_le_iff_le minus_minus)
    then have "?x / 2 powi ?q = of_int (n * 2 ^ nat (- ?q))" by simp
    then show ?thesis by blast
  next
    case F: False
    then have q1: "?q = 1" using e53 by linarith
    then have "?e = 53" by linarith
    then have "(2::rat) ^ 53 \<le> \<bar>?x\<bar>" using lower by simp
    then have "2 ^ 53 \<le> \<bar>n\<bar>"
      by (metis of_int_abs of_int_le_iff of_int_numeral of_int_power)
    then have "\<bar>n\<bar> = 2 ^ 53" using assms by linarith
    then have "even n" by (metis even_abs_add_iff even_add even_numeral even_power zero_less_numeral)
    then obtain k where "n = 2 * k" by (elim evenE)
    then have "?x / 2 powi ?q = of_int k" using q1 by simp
    then show ?thesis by blast
  qed
  then obtain k where k: "?x / 2 powi ?q = of_int k" by blast
  have r: "of_int (roundHalfEven (?x / 2 powi ?q)) * 2 powi ?q = ?x"
    unfolding k roundHalfEven_of_int using k[symmetric] by simp
  show ?thesis using False r e53 by (simp add: roundDouble_def Let_def)
qed

lemma roundDouble_whole:
  assumes "r = of_int \<lfloor>r\<rfloor>" and "\<bar>r\<bar> \<le> 2 ^ 53"
  shows "roundDouble r = Finite r"
proof -
  have "\<bar>rat_of_int \<lfloor>r\<rfloor>\<bar> \<le> 2 ^ 53" using assms by simp
  then have "\<bar>\<lfloor>r\<rfloor>\<bar> \<le> 2 ^ 53"
    by (metis of_int_abs of_int_le_iff of_int_numeral of_int_power)
  from roundDouble_of_int[OF this] show ?thesis using assms(1) by simp
qed

lemma whole_add: "a = rat_of_int \<lfloor>a\<rfloor> \<Longrightarrow> b = rat_of_int \<lfloor>b\<rfloor> \<Longrightarrow> a + b = of_int \<lfloor>a + b\<rfloor>"
  by (metis floor_of_int of_int_add)

lemma whole_diff: "a = rat_of_int \<lfloor>a\<rfloor> \<Longrightarrow> b = rat_of_int \<lfloor>b\<rfloor> \<Longrightarrow> a - b = of_int \<lfloor>a - b\<rfloor>"
  by (metis floor_of_int of_int_diff)

lemma wholeAmount_Finite:
  assumes "wholeAmount x"
  shows "x = Finite (valueOf x) \<and> 0 \<le> valueOf x \<and> valueOf x = of_int \<lfloor>valueOf x\<rfloor>"
  using assms by (cases x) (auto simp: wholeAmount_def)

lemma exactSum_nonneg: "\<forall>x\<in>set xs. wholeAmount x \<Longrightarrow> 0 \<le> exactSum xs"
  unfolding exactSum_def
  by (induction xs) (auto dest: wholeAmount_Finite)

lemma exactSum_whole: "\<forall>x\<in>set xs. wholeAmount x \<Longrightarrow> exactSum xs = of_int \<lfloor>exactSum xs\<rfloor>"
  unfolding exactSum_def
proof (induction xs)
  case Nil
  then show ?case by simp
next
  case (Cons x xs)
  then have "valueOf x = of_int \<lfloor>valueOf x\<rfloor>" by (auto dest: wholeAmount_Finite)
  moreover have "sum_list (map valueOf xs) = of_int \<lfloor>sum_list (map valueOf xs)\<rfloor>"
    using Cons by simp
  ultimately show ?case using whole_add by simp
qed

lemma foldl_add_whole:
  assumes "\<forall>x\<in>set xs. wholeAmount x" and "0 \<le> a" and "a = of_int \<lfloor>a\<rfloor>"
    and "a + exactSum xs \<le> 2 ^ 53"
  shows "foldl number_add (Finite a) xs = Finite (a + exactSum xs)"
  using assms
proof (induction xs arbitrary: a)
  case Nil
  then show ?case by (simp add: exactSum_def)
next
  case (Cons x xs)
  obtain r where x: "x = Finite r" and r0: "0 \<le> r" and rw: "r = of_int \<lfloor>r\<rfloor>"
    using Cons.prems(1) wholeAmount_Finite[of x] by auto
  have rest: "0 \<le> exactSum xs" using Cons.prems(1) by (intro exactSum_nonneg) simp
  have split: "exactSum (x # xs) = r + exactSum xs" by (simp add: exactSum_def x)
  have bound: "\<bar>a + r\<bar> \<le> 2 ^ 53" using Cons.prems(2,4) r0 rest split by simp
  have step: "number_add (Finite a) x = Finite (a + r)"
    using roundDouble_whole[OF whole_add[OF Cons.prems(3) rw] bound] by (simp add: x)
  have "foldl number_add (Finite (a + r)) xs = Finite (a + r + exactSum xs)"
  proof (rule Cons.IH)
    show "\<forall>x\<in>set xs. wholeAmount x" using Cons.prems(1) by simp
    show "0 \<le> a + r" using Cons.prems(2) r0 by simp
    show "a + r = of_int \<lfloor>a + r\<rfloor>" by (rule whole_add[OF Cons.prems(3) rw])
    show "a + r + exactSum xs \<le> 2 ^ 53" using Cons.prems(4) split by simp
  qed
  then show ?case using step split by simp
qed

section \<open>Rounding at work\<close>

text \<open>
  Above \<open>2^53\<close> only every second whole number is a binary64 value, and ties go to the
  even significand; \<^verbatim>\<open>0.1 + 0.2\<close> is \<^verbatim>\<open>0.30000000000000004\<close>.
\<close>

lemma rounding_examples:
  "roundDouble 9007199254740993 = Finite 9007199254740992
   \<and> roundDouble 9007199254740995 = Finite 9007199254740996
   \<and> number_add (parseFloat ''0.1'') (parseFloat ''0.2'') = parseFloat ''0.30000000000000004''
   \<and> number_add (parseFloat ''0.1'') (parseFloat ''0.2'') \<noteq> parseFloat ''0.3''"
  by code_simp

section \<open>The three totals\<close>

lemma foldl_reducer_totalIncome:
  "totalIncome (foldl reducer acc ts) = foldl number_add (totalIncome acc) (amountsOf Income ts)"
  by (induction ts arbitrary: acc) (simp_all add: amountsOf_def reducer_def)

lemma foldl_reducer_totalFixedExpenses:
  "totalFixedExpenses (foldl reducer acc ts) =
     foldl number_add (totalFixedExpenses acc) (amountsOf FixedExpense ts)"
  by (induction ts arbitrary: acc) (simp_all add: amountsOf_def reducer_def)

lemma foldl_reducer_totalVariableExpenses:
  "totalVariableExpenses (foldl reducer acc ts) =
     foldl number_add (totalVariableExpenses acc) (amountsOf VariableExpense ts)"
  by (induction ts arbitrary: acc) (simp_all add: amountsOf_def reducer_def)

lemma aggregate_sums:
  "totalIncome (aggregate ts) = foldl number_add (Finite 0) (amountsOf Income ts)"
  "totalFixedExpenses (aggregate ts) = foldl number_add (Finite 0) (amountsOf FixedExpense ts)"
  "totalVariableExpenses (aggregate ts) =
     foldl number_add (Finite 0) (amountsOf VariableExpense ts)"
  by (simp_all add: aggregate_def foldl_reducer_totalIncome foldl_reducer_totalFixedExpenses
      foldl_reducer_totalVariableExpenses)

lemma exactSum_kinds:
  "exactSum (map amount ts) =
     exactSum (amountsOf Income ts) + exactSum (amountsOf FixedExpense ts)
       + exactSum (amountsOf VariableExpense ts)"
proof (induction ts)
  case Nil
  then show ?case by (simp add: exactSum_def amountsOf_def)
next
  case (Cons t ts)
  then show ?case by (cases "type t") (simp_all add: exactSum_def amountsOf_def)
qed

lemma amountsOf_whole:
  "\<forall>t\<in>set ts. wholeAmount (amount t) \<Longrightarrow> \<forall>x\<in>set (amountsOf k ts). wholeAmount x"
  by (auto simp: amountsOf_def)

lemma total_of_kind_whole:
  assumes "\<forall>t\<in>set ts. wholeAmount (amount t)" and "exactSum (map amount ts) \<le> 2 ^ 53"
  shows "foldl number_add (Finite 0) (amountsOf k ts) = Finite (exactSum (amountsOf k ts))"
    and "0 \<le> exactSum (amountsOf k ts)"
    and "exactSum (amountsOf k ts) \<le> exactSum (map amount ts)"
    and "exactSum (amountsOf k ts) = of_int \<lfloor>exactSum (amountsOf k ts)\<rfloor>"
proof -
  have w: "\<forall>x\<in>set (amountsOf k' ts). wholeAmount x" for k'
    using assms(1) by (rule amountsOf_whole)
  have nn: "0 \<le> exactSum (amountsOf k' ts)" for k'
    using w by (rule exactSum_nonneg)
  show le: "exactSum (amountsOf k ts) \<le> exactSum (map amount ts)"
    using nn[of Income] nn[of FixedExpense] nn[of VariableExpense]
    by (cases k) (simp_all add: exactSum_kinds)
  show "0 \<le> exactSum (amountsOf k ts)" by (rule nn)
  show "exactSum (amountsOf k ts) = of_int \<lfloor>exactSum (amountsOf k ts)\<rfloor>"
    using w by (rule exactSum_whole)
  have "foldl number_add (Finite 0) (amountsOf k ts) = Finite (0 + exactSum (amountsOf k ts))"
    using w le assms(2) by (intro foldl_add_whole) simp_all
  then show "foldl number_add (Finite 0) (amountsOf k ts) = Finite (exactSum (amountsOf k ts))"
    by simp
qed

section \<open>Aggregation: the three totals and the sum of all amounts\<close>

text \<open>
  Claim C2, as the program has it. Each of the three totals is the sum, in collection
  order and in binary64 arithmetic, of the amounts of the transactions of its own kind and
  of no other. The three totals add up to the sum of all amounts when the amounts are
  non-negative whole numbers whose sum is at most \<open>2^53\<close>: then every addition is exact,
  and the sum of the totals, the sum over the collection and the exact sum coincide.
\<close>

theorem aggregate_partitions_amounts:
  "totalIncome (aggregate ts) = foldl number_add (Finite 0) (amountsOf Income ts)
   \<and> totalFixedExpenses (aggregate ts) = foldl number_add (Finite 0) (amountsOf FixedExpense ts)
   \<and> totalVariableExpenses (aggregate ts) =
       foldl number_add (Finite 0) (amountsOf VariableExpense ts)
   \<and> ((\<forall>t\<in>set ts. wholeAmount (amount t)) \<and> exactSum (map amount ts) \<le> 2 ^ 53 \<longrightarrow>
        number_add (number_add (totalIncome (aggregate ts)) (totalFixedExpenses (aggregate ts)))
          (totalVariableExpenses (aggregate ts)) = Finite (exactSum (map amount ts))
        \<and> foldl number_add (Finite 0) (map amount ts) = Finite (exactSum (map amount ts)))"
proof (intro conjI impI)
  show "totalIncome (aggregate ts) = foldl number_add (Finite 0) (amountsOf Income ts)"
    by (rule aggregate_sums)
  show "totalFixedExpenses (aggregate ts) = foldl number_add (Finite 0) (amountsOf FixedExpense ts)"
    by (rule aggregate_sums)
  show "totalVariableExpenses (aggregate ts) =
       foldl number_add (Finite 0) (amountsOf VariableExpense ts)"
    by (rule aggregate_sums)
next
  assume safe: "(\<forall>t\<in>set ts. wholeAmount (amount t)) \<and> exactSum (map amount ts) \<le> 2 ^ 53"
  then have w: "\<forall>t\<in>set ts. wholeAmount (amount t)" and b: "exactSum (map amount ts) \<le> 2 ^ 53"
    by simp_all
  note k = total_of_kind_whole[OF w b]
  let ?I = "exactSum (amountsOf Income ts)"
  let ?F = "exactSum (amountsOf FixedExpense ts)"
  let ?V = "exactSum (amountsOf VariableExpense ts)"
  have all: "exactSum (map amount ts) = ?I + ?F + ?V" by (rule exactSum_kinds)
  have IF: "number_add (Finite ?I) (Finite ?F) = Finite (?I + ?F)"
  proof -
    have "\<bar>?I + ?F\<bar> \<le> 2 ^ 53"
      using k(2)[of Income] k(2)[of FixedExpense] k(2)[of VariableExpense] all b by simp
    from roundDouble_whole[OF whole_add[OF k(4)[of Income] k(4)[of FixedExpense]] this]
    show ?thesis by simp
  qed
  have IFV: "number_add (Finite (?I + ?F)) (Finite ?V) = Finite (?I + ?F + ?V)"
  proof -
    have "\<bar>?I + ?F + ?V\<bar> \<le> 2 ^ 53"
      using k(2)[of Income] k(2)[of FixedExpense] k(2)[of VariableExpense] all b by simp
    from roundDouble_whole[OF whole_add[OF whole_add[OF k(4)[of Income] k(4)[of FixedExpense]]
          k(4)[of VariableExpense]] this]
    show ?thesis by simp
  qed
  show "number_add (number_add (totalIncome (aggregate ts)) (totalFixedExpenses (aggregate ts)))
          (totalVariableExpenses (aggregate ts)) = Finite (exactSum (map amount ts))"
    by (simp only: aggregate_sums k(1) IF IFV all)
  have "foldl number_add (Finite 0) (map amount ts) = Finite (0 + exactSum (map amount ts))"
    using w b by (intro foldl_add_whole) simp_all
  then show "foldl number_add (Finite 0) (map amount ts) = Finite (exactSum (map amount ts))"
    by simp
qed

lemma ledger_safe:
  "(\<forall>t\<in>set ledger. wholeAmount (amount t)) \<and> exactSum (map amount ledger) \<le> 2 ^ 53"
  by (simp add: ledger_def sample_def wholeAmount_def exactSum_def)

theorem aggregate_partitions_amounts_witness:
  "list_all (\<lambda>t. wholeAmount (amount t)) ledger \<and> exactSum (map amount ledger) \<le> 2 ^ 53
   \<and> totalIncome (aggregate ledger) = Finite 1500
   \<and> totalFixedExpenses (aggregate ledger) = Finite 800
   \<and> totalVariableExpenses (aggregate ledger) = Finite 300
   \<and> number_add (number_add (totalIncome (aggregate ledger)) (totalFixedExpenses (aggregate ledger)))
          (totalVariableExpenses (aggregate ledger)) = Finite 2600
   \<and> foldl number_add (Finite 0) (map amount ledger) = Finite 2600"
proof -
  have e: "exactSum (map amount ledger) = 2600"
    by (simp add: ledger_def sample_def exactSum_def)
  have kinds: "foldl number_add (Finite 0) (amountsOf Income ledger) = Finite 1500"
    "foldl number_add (Finite 0) (amountsOf FixedExpense ledger) = Finite 800"
    "foldl number_add (Finite 0) (amountsOf VariableExpense ledger) = Finite 300"
    by code_simp+
  note inst = aggregate_partitions_amounts[of ledger]
  have parts: "totalIncome (aggregate ledger) = Finite 1500"
    "totalFixedExpenses (aggregate ledger) = Finite 800"
    "totalVariableExpenses (aggregate ledger) = Finite 300"
    using inst kinds by simp_all
  have sums: "number_add (number_add (totalIncome (aggregate ledger)) (totalFixedExpenses (aggregate ledger)))
          (totalVariableExpenses (aggregate ledger)) = Finite (exactSum (map amount ledger))"
    "foldl number_add (Finite 0) (map amount ledger) = Finite (exactSum (map amount ledger))"
    using inst ledger_safe by blast+
  show ?thesis using ledger_safe parts sums[unfolded e] e by (simp add: list_all_iff)
qed

text \<open>
  Without that bound the totals need not add up to the sum of the amounts: with the
  amounts 1 (variable expense), 1 (fixed expense) and \<open>2^53\<close> (income), all binary64
  values, the three totals add up to \<open>2^53\<close>, while the sum over the collection and the
  exact sum are \<open>2^53 + 2\<close>.
\<close>

theorem totals_sum_counterexample:
  "list_all isDouble (map amount bigLedger)
   \<and> number_add (number_add (totalIncome (aggregate bigLedger)) (totalFixedExpenses (aggregate bigLedger)))
          (totalVariableExpenses (aggregate bigLedger)) = Finite 9007199254740992
   \<and> foldl number_add (Finite 0) (map amount bigLedger) = Finite 9007199254740994
   \<and> exactSum (map amount bigLedger) = 9007199254740994
   \<and> number_add (number_add (totalIncome (aggregate bigLedger)) (totalFixedExpenses (aggregate bigLedger)))
          (totalVariableExpenses (aggregate bigLedger))
        \<noteq> foldl number_add (Finite 0) (map amount bigLedger)"
  by code_simp

text \<open>
  The amounts of these examples can be typed into the form, and rounding also shows with
  everyday amounts: for 0.3 (variable expense), 0.2 (fixed expense) and 0.1 (income) the
  totals add up to \<open>(0.1 + 0.2) + 0.3 = 0.6000000000000001\<close>, the amounts in collection
  order to \<open>(0.3 + 0.2) + 0.1 = 0.6\<close>.
\<close>

lemma big_amount_can_be_typed:
  "parseFloat ''9007199254740992'' = Finite 9007199254740992 \<and> parseFloat ''1'' = Finite 1"
  by code_simp

lemma totals_sum_decimal_example:
  "number_add (number_add (totalIncome (aggregate decimalLedger)) (totalFixedExpenses (aggregate decimalLedger)))
          (totalVariableExpenses (aggregate decimalLedger)) = parseFloat ''0.6000000000000001''
   \<and> foldl number_add (Finite 0) (map amount decimalLedger) = parseFloat ''0.6''
   \<and> parseFloat ''0.6000000000000001'' \<noteq> parseFloat ''0.6''"
  by code_simp

section \<open>The remaining budget\<close>

text \<open>
  Claim C3, as the program has it. The remaining budget is the budget plus the income
  total, minus the sum of the two expense totals, each operation rounded to binary64.
  For a budget and amounts that are non-negative whole numbers with a sum of at most
  \<open>2^53\<close> no operation rounds, and the remaining budget is exactly the budget plus the
  income minus the fixed expenses minus the variable expenses.
\<close>

theorem remainingBudget_exact_on_whole_numbers:
  "remainingBudget b0 ts =
     number_sub (number_add b0 (totalIncome (aggregate ts)))
       (number_add (totalFixedExpenses (aggregate ts)) (totalVariableExpenses (aggregate ts)))
   \<and> (wholeAmount b0 \<and> (\<forall>t\<in>set ts. wholeAmount (amount t))
        \<and> valueOf b0 + exactSum (map amount ts) \<le> 2 ^ 53 \<longrightarrow>
      remainingBudget b0 ts =
        Finite (valueOf b0 + exactSum (amountsOf Income ts)
                 - exactSum (amountsOf FixedExpense ts) - exactSum (amountsOf VariableExpense ts)))"
proof (intro conjI impI)
  show "remainingBudget b0 ts =
     number_sub (number_add b0 (totalIncome (aggregate ts)))
       (number_add (totalFixedExpenses (aggregate ts)) (totalVariableExpenses (aggregate ts)))"
    by (simp add: remainingBudget_def totalExpenses_def)
next
  assume safe: "wholeAmount b0 \<and> (\<forall>t\<in>set ts. wholeAmount (amount t))
        \<and> valueOf b0 + exactSum (map amount ts) \<le> 2 ^ 53"
  let ?b = "valueOf b0"
  have bud: "b0 = Finite ?b" "0 \<le> ?b" "?b = of_int \<lfloor>?b\<rfloor>"
    using safe wholeAmount_Finite[of b0] by simp_all
  have w: "\<forall>t\<in>set ts. wholeAmount (amount t)" using safe by simp
  have all0: "0 \<le> exactSum (map amount ts)" using w by (intro exactSum_nonneg) simp
  have b: "exactSum (map amount ts) \<le> 2 ^ 53" using safe bud(2) by linarith
  note k = total_of_kind_whole[OF w b]
  let ?I = "exactSum (amountsOf Income ts)"
  let ?F = "exactSum (amountsOf FixedExpense ts)"
  let ?V = "exactSum (amountsOf VariableExpense ts)"
  have all: "exactSum (map amount ts) = ?I + ?F + ?V" by (rule exactSum_kinds)
  have nn: "0 \<le> ?I" "0 \<le> ?F" "0 \<le> ?V" by (rule k(2))+
  have total: "?b + ?I + ?F + ?V \<le> 2 ^ 53" using safe all by simp
  have bI: "number_add (Finite ?b) (Finite ?I) = Finite (?b + ?I)"
  proof -
    have "\<bar>?b + ?I\<bar> \<le> 2 ^ 53" using bud(2) nn total by simp
    from roundDouble_whole[OF whole_add[OF bud(3) k(4)[of Income]] this] show ?thesis by simp
  qed
  have FV: "number_add (Finite ?F) (Finite ?V) = Finite (?F + ?V)"
  proof -
    have "\<bar>?F + ?V\<bar> \<le> 2 ^ 53" using bud(2) nn total by simp
    from roundDouble_whole[OF whole_add[OF k(4)[of FixedExpense] k(4)[of VariableExpense]] this]
    show ?thesis by simp
  qed
  have diff: "number_sub (Finite (?b + ?I)) (Finite (?F + ?V)) = Finite (?b + ?I - (?F + ?V))"
  proof -
    have "\<bar>?b + ?I - (?F + ?V)\<bar> \<le> 2 ^ 53" using bud(2) nn total by (simp add: abs_le_iff)
    from roundDouble_whole[OF whole_diff[OF whole_add[OF bud(3) k(4)[of Income]]
          whole_add[OF k(4)[of FixedExpense] k(4)[of VariableExpense]]] this]
    show ?thesis by simp
  qed
  have "remainingBudget b0 ts = Finite (?b + ?I - (?F + ?V))"
    unfolding remainingBudget_def totalExpenses_def aggregate_sums k(1)
    by (subst bud(1)) (simp only: bI FV diff)
  then show "remainingBudget b0 ts = Finite (?b + ?I - ?F - ?V)"
    by (simp add: algebra_simps)
qed

theorem remainingBudget_exact_on_whole_numbers_witness:
  "wholeAmount (Finite 2000) \<and> list_all (\<lambda>t. wholeAmount (amount t)) ledger
   \<and> valueOf (Finite 2000) + exactSum (map amount ledger) \<le> 2 ^ 53
   \<and> remainingBudget (Finite 2000) ledger = Finite 2400"
proof -
  have safe: "wholeAmount (Finite 2000)" "\<forall>t\<in>set ledger. wholeAmount (amount t)"
    "valueOf (Finite 2000) + exactSum (map amount ledger) \<le> 2 ^ 53"
    by (simp_all add: ledger_def sample_def wholeAmount_def exactSum_def)
  have e: "exactSum (amountsOf Income ledger) = 1500"
    "exactSum (amountsOf FixedExpense ledger) = 800"
    "exactSum (amountsOf VariableExpense ledger) = 300"
    by (simp_all add: ledger_def sample_def exactSum_def amountsOf_def)
  have "remainingBudget (Finite 2000) ledger =
        Finite (valueOf (Finite 2000) + exactSum (amountsOf Income ledger)
                 - exactSum (amountsOf FixedExpense ledger) - exactSum (amountsOf VariableExpense ledger))"
    using remainingBudget_exact_on_whole_numbers[of "Finite 2000" ledger] safe by blast
  then have "remainingBudget (Finite 2000) ledger = Finite 2400" by (simp add: e)
  then show ?thesis using safe by (simp add: list_all_iff)
qed

text \<open>
  For large values the equation fails: with a budget of \<open>2^53\<close>, a fixed expense of
  \<open>2^53\<close> and a variable expense of 1 the program computes
  \<open>(2^53 + 0) - (2^53 + 1) = 2^53 - 2^53 = 0\<close>, while budget plus income minus fixed
  minus variable expenses is \<open>-1\<close>, evaluated exactly or in binary64 from left to right.
\<close>

theorem remainingBudget_counterexample:
  "isDouble (Finite 9007199254740992) \<and> list_all isDouble (map amount bigExpenses)
   \<and> totalIncome (aggregate bigExpenses) = Finite 0
   \<and> totalFixedExpenses (aggregate bigExpenses) = Finite 9007199254740992
   \<and> totalVariableExpenses (aggregate bigExpenses) = Finite 1
   \<and> remainingBudget (Finite 9007199254740992) bigExpenses = Finite 0
   \<and> number_sub (number_sub (number_add (Finite 9007199254740992) (totalIncome (aggregate bigExpenses)))
         (totalFixedExpenses (aggregate bigExpenses))) (totalVariableExpenses (aggregate bigExpenses))
       = Finite (- 1)
   \<and> valueOf (Finite 9007199254740992) + exactSum (amountsOf Income bigExpenses)
         - exactSum (amountsOf FixedExpense bigExpenses)
         - exactSum (amountsOf VariableExpense bigExpenses) = - 1
   \<and> remainingBudget (Finite 9007199254740992) bigExpenses
       \<noteq> number_sub (number_sub (number_add (Finite 9007199254740992) (totalIncome (aggregate bigExpenses)))
         (totalFixedExpenses (aggregate bigExpenses))) (totalVariableExpenses (aggregate bigExpenses))"
  by code_simp

section \<open>The order of the transaction collection\<close>

lemma setValue_fst:
  "fst (setValue stringify key val (v, st)) = (case val of Updater f \<Rightarrow> f v | Value w \<Rightarrow> w)"
  by (simp add: setValue_def Let_def split: option.splits SetStateAction.splits)

lemma transactions_setTransactions:
  "transactions (setTransactions P val s) =
     (case val of Updater f \<Rightarrow> f (transactions s) | Value w \<Rightarrow> w)"
  by (simp add: setTransactions_def case_prod_beta setValue_fst)

lemma transactions_addTransaction:
  "transactions (addTransaction P uuid t s) =
     sortBy (compareByDate (getTime P)) (newTransaction t uuid # transactions s)"
  by (simp add: addTransaction_def transactions_setTransactions)

lemma transactions_deleteTransaction:
  "transactions (deleteTransaction P i s) = filter (\<lambda>t. id' t \<noteq> i) (transactions s)"
  by (simp add: deleteTransaction_def transactions_setTransactions)

lemma insertBy_insort_key:
  assumes "gt (date x) \<noteq> None" and "\<forall>y\<in>set ys. gt (date y) \<noteq> None"
  shows "insertBy (compareByDate gt) x ys = insort_key (dateKey gt) x ys"
  using assms
  by (induction ys) (auto simp: compareByDate_def dateKey_def)

lemma sortBy_sort_key:
  assumes "\<forall>y\<in>set ys. gt (date y) \<noteq> None"
  shows "sortBy (compareByDate gt) ys = sort_key (dateKey gt) ys"
  using assms
proof (induction ys)
  case Nil
  then show ?case by (simp add: sortBy_def)
next
  case (Cons y ys)
  then have IH: "sortBy (compareByDate gt) ys = sort_key (dateKey gt) ys" by simp
  have "\<forall>z\<in>set (sort_key (dateKey gt) ys). gt (date z) \<noteq> None" using Cons.prems by simp
  then have "insertBy (compareByDate gt) y (sort_key (dateKey gt) ys) =
      insort_key (dateKey gt) y (sort_key (dateKey gt) ys)"
    using Cons.prems by (intro insertBy_insort_key) simp_all
  then show ?case using IH by (simp add: sortBy_def)
qed

lemma calls_sorted_log:
  assumes "\<forall>c\<in>set cs. validCall (getTime P) c"
    and "\<forall>t\<in>set l. getTime P (date t) \<noteq> None"
    and "transactions s = sort_key (dateKey (getTime P)) l"
  shows "transactions (calls P s cs) = sort_key (dateKey (getTime P)) (foldl prependOnly l cs)
         \<and> (\<forall>t\<in>set (foldl prependOnly l cs). getTime P (date t) \<noteq> None)"
  using assms
proof (induction cs arbitrary: s l)
  case Nil
  then show ?case by (simp add: calls_def)
next
  case (Cons c cs)
  let ?key = "dateKey (getTime P)"
  have step: "transactions (call P s c) = sort_key ?key (prependOnly l c)
      \<and> (\<forall>t\<in>set (prependOnly l c). getTime P (date t) \<noteq> None)"
  proof (cases c)
    case (AddTransaction t uuid)
    let ?n = "newTransaction t uuid"
    have v: "getTime P (date ?n) \<noteq> None"
      using Cons.prems(1) AddTransaction by (simp add: validCall_def newTransaction_def)
    have all: "\<forall>y\<in>set (?n # sort_key ?key l). getTime P (date y) \<noteq> None"
      using v Cons.prems(2) by simp
    have "transactions (call P s c) = sort_key ?key (?n # sort_key ?key l)"
      using AddTransaction Cons.prems(3) sortBy_sort_key[OF all]
      by (simp add: transactions_addTransaction)
    also have "\<dots> = insort_key ?key ?n (sort_key ?key l)"
      by (simp add: sort_key_id_if_sorted)
    finally show ?thesis using AddTransaction v Cons.prems(2) by simp
  next
    case (DeleteTransaction i)
    then show ?thesis using Cons.prems(2,3)
      by (simp add: transactions_deleteTransaction filter_sort)
  qed
  have "transactions (calls P (call P s c) cs) =
        sort_key ?key (foldl prependOnly (prependOnly l c) cs)
      \<and> (\<forall>t\<in>set (foldl prependOnly (prependOnly l c) cs). getTime P (date t) \<noteq> None)"
    using Cons.prems(1) step by (intro Cons.IH) simp_all
  then show ?case by (simp add: calls_def)
qed

lemma sortedByDateDesc_sort_key:
  assumes "\<forall>t\<in>set l. gt (date t) \<noteq> None"
  shows "sortedByDateDesc gt (sort_key (dateKey gt) l)"
proof -
  have "sorted_wrt (\<lambda>a b. dateKey gt a \<le> dateKey gt b) (sort_key (dateKey gt) l)"
    using sorted_sort_key[of "dateKey gt" l] by (simp add: sorted_map)
  moreover have "\<And>a b. a \<in> set (sort_key (dateKey gt) l) \<Longrightarrow> b \<in> set (sort_key (dateKey gt) l) \<Longrightarrow>
      dateKey gt a \<le> dateKey gt b \<Longrightarrow>
      (case (gt (date a), gt (date b)) of (Some x, Some y) \<Rightarrow> y \<le> x | _ \<Rightarrow> False)"
    using assms by (auto simp: dateKey_def split: option.splits)
  ultimately show ?thesis
    unfolding sortedByDateDesc_def by (rule sorted_wrt_mono_rel[rotated])
qed

lemma onDate_dateKey:
  assumes "\<forall>t\<in>set l. gt (date t) \<noteq> None"
  shows "filter (onDate gt k) l = filter (\<lambda>t. dateKey gt t = - k) l"
  using assms by (intro filter_cong) (auto simp: onDate_def dateKey_def split: option.splits)

text \<open>
  Claim C1, as the program has it. Starting from the empty collection, after every
  sequence of \<^verbatim>\<open>addTransaction\<close> and \<^verbatim>\<open>deleteTransaction\<close> calls whose dates are valid
  the collection is sorted by date descending, and the transactions of one date appear
  with the last inserted first: \<^verbatim>\<open>addTransaction\<close> puts the new transaction in front
  of the collection before the stable sort.
\<close>

theorem transactions_newest_first_by_date:
  assumes "transactions s = []" and "\<forall>c\<in>set cs. validCall (getTime P) c"
  shows "sortedByDateDesc (getTime P) (transactions (calls P s cs))
     \<and> (\<forall>k. filter (onDate (getTime P) k) (transactions (calls P s cs)) =
             filter (onDate (getTime P) k) (newestFirst cs))"
proof -
  let ?key = "dateKey (getTime P)"
  have inv: "transactions (calls P s cs) = sort_key ?key (newestFirst cs)"
    and valid: "\<forall>t\<in>set (newestFirst cs). getTime P (date t) \<noteq> None"
    using calls_sorted_log[of cs P "[]" s] assms by (simp_all add: newestFirst_def)
  have "sortedByDateDesc (getTime P) (transactions (calls P s cs))"
    unfolding inv by (rule sortedByDateDesc_sort_key[OF valid])
  moreover have "filter (onDate (getTime P) k) (transactions (calls P s cs)) =
      filter (onDate (getTime P) k) (newestFirst cs)" for k
  proof -
    have v2: "\<forall>t\<in>set (sort_key ?key (newestFirst cs)). getTime P (date t) \<noteq> None"
      using valid by simp
    show ?thesis
      unfolding inv onDate_dateKey[OF v2] onDate_dateKey[OF valid]
      by (rule sort_key_stable)
  qed
  ultimately show ?thesis by blast
qed

theorem transactions_newest_first_by_date_witness:
  "transactions emptyApp = [] \<and> list_all (validCall (getTime referencePlatform)) threeDays
   \<and> sortedByDateDesc (getTime referencePlatform) (transactions (calls referencePlatform emptyApp threeDays))
   \<and> map description (transactions (calls referencePlatform emptyApp threeDays))
        = [''fifth'', ''fourth'', ''third'', ''first'']"
proof -
  have h1: "transactions emptyApp = []" by (simp add: emptyApp_def)
  have h2: "\<forall>c\<in>set threeDays. validCall (getTime referencePlatform) c" by code_simp
  have r: "map description (transactions (calls referencePlatform emptyApp threeDays))
        = [''fifth'', ''fourth'', ''third'', ''first'']" by code_simp
  from transactions_newest_first_by_date[OF h1 h2] h1 h2 r show ?thesis
    by (simp add: list_all_iff)
qed

text \<open>
  Two transactions of the same date do not appear in the order of their insertion: the
  one inserted second comes first.
\<close>

theorem insertion_order_counterexample:
  "map description (filter (onDate isoDateTime 1704412800000)
        (transactions (calls referencePlatform emptyApp twoSameDay))) = [''second'', ''first'']
   \<and> map description (filter (onDate isoDateTime 1704412800000) (insertionOrder twoSameDay))
        = [''first'', ''second'']
   \<and> filter (onDate (getTime referencePlatform) 1704412800000)
        (transactions (calls referencePlatform emptyApp twoSameDay))
      \<noteq> filter (onDate (getTime referencePlatform) 1704412800000) (insertionOrder twoSameDay)"
  by code_simp

section \<open>Writing through the setters\<close>

lemma getItem_setItem:
  assumes "setItem st key text = Some st'"
  shows "getItem st' k = (if k = key then Some text else getItem st k)"
  using assms by (auto simp: setItem_def getItem_def Let_def update_conv' split: if_splits)

lemma getItem_setValue_other:
  assumes "k \<noteq> key"
  shows "getItem (snd (setValue stringify key val (v, st))) k = getItem st k"
  using assms
  by (auto simp: setValue_def Let_def getItem_setItem split: option.splits)

lemma setCategories_fields:
  "categories (setCategories P val s) = (case val of Updater f \<Rightarrow> f (categories s) | Value w \<Rightarrow> w)"
  "transactions (setCategories P val s) = transactions s"
  "users (setCategories P val s) = users s"
  "budget (setCategories P val s) = budget s"
  "getItem (localStorage (setCategories P val s)) ''transactions'' = getItem (localStorage s) ''transactions''"
  using getItem_setValue_other[of "''transactions''" "''categories''" "stringifyStrings P" val
      "categories s" "localStorage s"]
  by (simp_all add: setCategories_def case_prod_beta setValue_fst)

lemma setUsers_fields:
  "users (setUsers P val s) = (case val of Updater f \<Rightarrow> f (users s) | Value w \<Rightarrow> w)"
  "transactions (setUsers P val s) = transactions s"
  "categories (setUsers P val s) = categories s"
  "budget (setUsers P val s) = budget s"
  "getItem (localStorage (setUsers P val s)) ''transactions'' = getItem (localStorage s) ''transactions''"
  using getItem_setValue_other[of "''transactions''" "''users''" "stringifyStrings P" val
      "users s" "localStorage s"]
  by (simp_all add: setUsers_def case_prod_beta setValue_fst)

section \<open>The category and user lists\<close>

text \<open>
  Claim C6. For the category list and the user list, adding a value that is empty or
  already in the list (compared as it is, so in a case-sensitive way) changes nothing at
  all; adding any other value appends it at the end of the list, the elements before it
  being the old list.
\<close>

theorem add_category_or_user:
  "(c = [] \<or> c \<in> set (categories s) \<longrightarrow> addCategory P c s = s)
   \<and> (c \<noteq> [] \<and> c \<notin> set (categories s) \<longrightarrow> categories (addCategory P c s) = categories s @ [c])
   \<and> (c = [] \<or> c \<in> set (users s) \<longrightarrow> addUser P c s = s)
   \<and> (c \<noteq> [] \<and> c \<notin> set (users s) \<longrightarrow> users (addUser P c s) = users s @ [c])"
  by (auto simp: addCategory_def addUser_def setCategories_fields setUsers_fields)

theorem add_category_or_user_witness:
  "addCategory referencePlatform '''' emptyApp = emptyApp
   \<and> ''Comida'' \<in> set (categories emptyApp)
   \<and> addCategory referencePlatform ''Comida'' emptyApp = emptyApp
   \<and> ''comida'' \<noteq> [] \<and> ''comida'' \<notin> set (categories emptyApp)
   \<and> categories (addCategory referencePlatform ''comida'' emptyApp) = DEFAULT_CATEGORIES @ [''comida'']
   \<and> addUser referencePlatform '''' emptyApp = emptyApp
   \<and> ''Usuario 2'' \<in> set (users emptyApp)
   \<and> addUser referencePlatform ''Usuario 2'' emptyApp = emptyApp
   \<and> ''Ana'' \<noteq> [] \<and> ''Ana'' \<notin> set (users emptyApp)
   \<and> users (addUser referencePlatform ''Ana'' emptyApp) = [''Usuario 1'', ''Usuario 2'', ''Ana'']"
proof -
  have c: "categories emptyApp = DEFAULT_CATEGORIES" and u: "users emptyApp = DEFAULT_USERS"
    by (simp_all add: emptyApp_def)
  have m1: "''Comida'' \<in> set (categories emptyApp)"
    and m2: "''comida'' \<notin> set (categories emptyApp)"
    and m3: "''Usuario 2'' \<in> set (users emptyApp)"
    and m4: "''Ana'' \<notin> set (users emptyApp)"
    by (simp_all add: c u DEFAULT_CATEGORIES_def DEFAULT_USERS_def)
  note e = add_category_or_user[of "''''" emptyApp referencePlatform]
  note d = add_category_or_user[of "''Comida''" emptyApp referencePlatform]
  note l = add_category_or_user[of "''comida''" emptyApp referencePlatform]
  note d2 = add_category_or_user[of "''Usuario 2''" emptyApp referencePlatform]
  note a = add_category_or_user[of "''Ana''" emptyApp referencePlatform]
  have "addCategory referencePlatform '''' emptyApp = emptyApp"
    "addUser referencePlatform '''' emptyApp = emptyApp" using e by simp_all
  moreover have "addCategory referencePlatform ''Comida'' emptyApp = emptyApp" using d m1 by blast
  moreover have "categories (addCategory referencePlatform ''comida'' emptyApp) = DEFAULT_CATEGORIES @ [''comida'']"
    using l m2 c by simp
  moreover have "addUser referencePlatform ''Usuario 2'' emptyApp = emptyApp" using d2 m3 by blast
  moreover have "users (addUser referencePlatform ''Ana'' emptyApp) = [''Usuario 1'', ''Usuario 2'', ''Ana'']"
    using a m4 u by (simp add: DEFAULT_USERS_def)
  ultimately show ?thesis using m1 m2 m3 m4 by simp
qed

text \<open>
  Claim C7. Deleting a value from the category list or the user list keeps exactly the
  entries that differ from it, in their order, and leaves the transaction collection as
  it was, in the state and in the store, whatever the transactions refer to.
\<close>

theorem delete_category_or_user:
  "categories (deleteCategory P v s) = filter (\<lambda>c. c \<noteq> v) (categories s)
   \<and> transactions (deleteCategory P v s) = transactions s
   \<and> getItem (localStorage (deleteCategory P v s)) ''transactions''
        = getItem (localStorage s) ''transactions''
   \<and> users (deleteUser P v s) = filter (\<lambda>u. u \<noteq> v) (users s)
   \<and> transactions (deleteUser P v s) = transactions s
   \<and> getItem (localStorage (deleteUser P v s)) ''transactions''
        = getItem (localStorage s) ''transactions''"
  by (simp add: deleteCategory_def deleteUser_def setCategories_fields setUsers_fields)

theorem delete_category_or_user_witness:
  "map category (transactions ledgerApp) = [None, Some ''Hogar'', Some ''Hogar'']
   \<and> categories (deleteCategory referencePlatform ''Hogar'' ledgerApp)
        = [''Comida'', ''Transporte'', ''Ocio'', ''Salud'', ''Educaci'' @ [CHR 0xC3, CHR 0xB3] @ ''n'']
   \<and> transactions (deleteCategory referencePlatform ''Hogar'' ledgerApp) = ledger
   \<and> map user (transactions ledgerApp) = [''Usuario 1'', ''Usuario 1'', ''Usuario 1'']
   \<and> users (deleteUser referencePlatform ''Usuario 1'' ledgerApp) = [''Usuario 2'']
   \<and> transactions (deleteUser referencePlatform ''Usuario 1'' ledgerApp) = ledger"
proof -
  have s: "transactions ledgerApp = ledger" "categories ledgerApp = DEFAULT_CATEGORIES"
    "users ledgerApp = DEFAULT_USERS"
    by (simp_all add: ledgerApp_def emptyApp_def)
  have refs: "map category ledger = [None, Some ''Hogar'', Some ''Hogar'']"
    "map user ledger = [''Usuario 1'', ''Usuario 1'', ''Usuario 1'']"
    by (simp_all add: ledger_def sample_def)
  note c = delete_category_or_user[of referencePlatform "''Hogar''" ledgerApp]
  note u = delete_category_or_user[of referencePlatform "''Usuario 1''" ledgerApp]
  have "categories (deleteCategory referencePlatform ''Hogar'' ledgerApp)
        = [''Comida'', ''Transporte'', ''Ocio'', ''Salud'', ''Educaci'' @ [CHR 0xC3, CHR 0xB3] @ ''n'']"
    using c by (simp add: s DEFAULT_CATEGORIES_def)
  moreover have "transactions (deleteCategory referencePlatform ''Hogar'' ledgerApp) = ledger"
    using c by (simp add: s)
  moreover have "users (deleteUser referencePlatform ''Usuario 1'' ledgerApp) = [''Usuario 2'']"
    using u by (simp add: s DEFAULT_USERS_def)
  moreover have "transactions (deleteUser referencePlatform ''Usuario 1'' ledgerApp) = ledger"
    using u by (simp add: s)
  ultimately show ?thesis using refs by (simp add: s)
qed

section \<open>The persistent store\<close>

subsection \<open>Strings written and read back\<close>

lemma of_char_int_nonneg: "(0::int) \<le> of_char c"
  by (metis of_nat_0_le_iff of_nat_of_char)

lemma of_char_int_less: "(of_char c :: int) < 256"
proof -
  have "int (of_char c) < 256" using nat_of_char_less_256[of c] by simp
  then show ?thesis by (simp add: of_nat_of_char)
qed

lemma map_option_append_Nil: "map_option ((@) []) x = x"
  by (cases x) simp_all

lemma hexValue_hexDigit: "0 \<le> d \<Longrightarrow> d < 16 \<Longrightarrow> hexValue (hexDigit d) = Some d"
  by (simp add: hexValue_def hexDigit_def Let_def)

lemma hexValue_zero: "hexValue CHR ''0'' = Some 0"
  by (simp add: hexValue_def)

lemma outsideStep_quote: "outsideStep (CHR 0x22) = Some ([], InString [])"
  by (simp add: outsideStep_def isJsonSpace_def)

lemma lex_escape:
  "lexJson (InString acc) (jsonEscape c @ rest) = lexJson (InString (unitOf c # acc)) rest"
proof -
  consider (special) "c \<in> set [CHR 0x22, CHR 0x5C, CHR 0x08, CHR 0x09, CHR 0x0A, CHR 0x0C, CHR 0x0D]"
    | (control) "c \<notin> set [CHR 0x22, CHR 0x5C, CHR 0x08, CHR 0x09, CHR 0x0A, CHR 0x0C, CHR 0x0D]" "(of_char c :: int) < 32"
    | (plain) "c \<notin> set [CHR 0x22, CHR 0x5C, CHR 0x08, CHR 0x09, CHR 0x0A, CHR 0x0C, CHR 0x0D]" "\<not> (of_char c :: int) < 32"
    by blast
  then show ?thesis
  proof cases
    case special
    then show ?thesis
      by (auto simp: jsonEscape_def unitOf_def simpleEscape_def)
  next
    case control
    have n: "(0::int) \<le> of_char c" by (rule of_char_int_nonneg)
    have d: "(of_char c :: int) div 16 < 16" "(0::int) \<le> of_char c div 16"
      "(of_char c :: int) mod 16 < 16" "(0::int) \<le> of_char c mod 16"
      using control(2) n by simp_all
    show ?thesis using control
      by (simp add: jsonEscape_def unitOf_def hexValue_zero hexValue_hexDigit d)
  next
    case plain
    then show ?thesis by (simp add: jsonEscape_def unitOf_def)
  qed
qed

lemma utf8_of_char: "(of_char c :: int) < 32 \<Longrightarrow> utf8 (of_char c) = [c]"
  by (simp add: utf8_def)

lemma decodeUnits_unitOf: "decodeUnits (unitOf c # us) = c # decodeUnits us"
proof (cases "unitOf c")
  case (Byte b)
  then have "b = c" by (simp add: unitOf_def split: if_splits)
  with Byte show ?thesis by simp
next
  case (Escaped n)
  then have n: "n = of_char c" "(of_char c :: int) < 32" by (simp_all add: unitOf_def split: if_splits)
  show ?thesis
  proof (cases us)
    case Nil
    with Escaped n show ?thesis by (simp add: utf8_of_char)
  next
    case (Cons u us')
    with Escaped n show ?thesis by (cases u) (simp_all add: utf8_of_char)
  qed
qed

lemma decodeUnits_map_unitOf: "decodeUnits (map unitOf s) = s"
  by (induction s) (simp_all add: decodeUnits_unitOf)

lemma decodeUnits_append_unitOf: "decodeUnits (map unitOf s @ us) = s @ decodeUnits us"
  by (induction s) (simp_all add: decodeUnits_unitOf)

lemma lex_string_body:
  "lexJson (InString acc) (concat (map jsonEscape s) @ CHR 0x22 # rest) =
     map_option (\<lambda>r. StringToken (decodeUnits (rev acc @ map unitOf s)) # r) (lexJson Outside rest)"
proof (induction s arbitrary: acc)
  case Nil
  show ?case by simp
next
  case (Cons c s)
  have "lexJson (InString acc) (concat (map jsonEscape (c # s)) @ CHR 0x22 # rest)
      = lexJson (InString (unitOf c # acc)) (concat (map jsonEscape s) @ CHR 0x22 # rest)"
    using lex_escape[of acc c "concat (map jsonEscape s) @ CHR 0x22 # rest"] by simp
  then show ?case by (simp add: Cons.IH)
qed

lemma lex_jsonString:
  "lexJson Outside (jsonString s @ rest) = map_option (\<lambda>r. StringToken s # r) (lexJson Outside rest)"
  using lex_string_body[of "[]" s rest]
  by (simp add: jsonString_def outsideStep_quote decodeUnits_map_unitOf map_option_append_Nil)

subsection \<open>Arrays written and read back\<close>

lemma append_singleton_fun: "(@) [a] = (#) a"
  by (rule ext) simp

lemma literal_not_space: "isLiteralChar c \<Longrightarrow> \<not> isJsonSpace c \<and> c \<noteq> CHR 0x22"
  by (auto simp: isLiteralChar_def isJsonSpace_def Let_def)

lemma outsideStep_literal: "isLiteralChar c \<Longrightarrow> outsideStep c = Some ([], InLiteral [c])"
  using literal_not_space[of c] by (simp add: outsideStep_def)

lemma lex_in_literal:
  "list_all isLiteralChar w \<Longrightarrow> lexJson (InLiteral acc) (w @ r) = lexJson (InLiteral (rev w @ acc)) r"
  by (induction w arbitrary: acc) simp_all

lemma lex_literal_end:
  assumes "w \<noteq> []" and "list_all isLiteralChar w"
  shows "lexJson Outside w = Some [LiteralToken w]"
proof -
  from assms obtain a w' where w: "w = a # w'" by (cases w) auto
  with assms have a: "isLiteralChar a" and w': "list_all isLiteralChar w'" by simp_all
  have "lexJson Outside w = lexJson (InLiteral [a]) (w' @ [])"
    by (simp add: w outsideStep_literal[OF a] map_option_append_Nil)
  also have "\<dots> = lexJson (InLiteral (rev w' @ [a])) []" by (rule lex_in_literal[OF w'])
  finally show ?thesis by (simp add: w)
qed

lemma lex_literal:
  assumes "w \<noteq> []" and "list_all isLiteralChar w" and "\<not> isLiteralChar c"
  shows "lexJson Outside (w @ c # r) = map_option (\<lambda>ts. LiteralToken w # ts) (lexJson Outside (c # r))"
proof -
  from assms obtain a w' where w: "w = a # w'" by (cases w) auto
  with assms have a: "isLiteralChar a" and w': "list_all isLiteralChar w'" by simp_all
  have "lexJson Outside (w @ c # r) = lexJson (InLiteral [a]) (w' @ c # r)"
    by (simp add: w outsideStep_literal[OF a] map_option_append_Nil)
  also have "\<dots> = lexJson (InLiteral (rev w' @ [a])) (c # r)" by (rule lex_in_literal[OF w'])
  finally show ?thesis using assms(3)
    by (cases "outsideStep c") (auto simp: w option.map_comp comp_def)
qed

lemma outsideStep_punctuation:
  "outsideStep CHR ''['' = Some ([LBracket], Outside)"
  "outsideStep CHR '']'' = Some ([RBracket], Outside)"
  "outsideStep CHR ''{'' = Some ([LBrace], Outside)"
  "outsideStep CHR ''}'' = Some ([RBrace], Outside)"
  "outsideStep CHR '','' = Some ([Comma], Outside)"
  "outsideStep CHR '':'' = Some ([Colon], Outside)"
  by (simp_all add: outsideStep_def isJsonSpace_def isLiteralChar_def)

lemma lex_join:
  assumes "\<And>y r. y \<in> set (x # xs) \<Longrightarrow>
             lexJson Outside (f y @ r) = map_option (\<lambda>ts. tok y @ ts) (lexJson Outside r)"
  shows "lexJson Outside (join '','' (map f (x # xs)) @ r) =
           map_option (\<lambda>ts. tok x @ concat (map (\<lambda>y. Comma # tok y) xs) @ ts) (lexJson Outside r)"
  using assms
proof (induction xs arbitrary: x)
  case Nil
  then show ?case by simp
next
  case (Cons y ys)
  have ih: "lexJson Outside (join '','' (map f (y # ys)) @ r) =
           map_option (\<lambda>ts. tok y @ concat (map (\<lambda>y. Comma # tok y) ys) @ ts) (lexJson Outside r)"
    by (rule Cons.IH) (simp add: Cons.prems)
  have x: "\<And>r. lexJson Outside (f x @ r) = map_option (\<lambda>ts. tok x @ ts) (lexJson Outside r)"
    by (rule Cons.prems) simp
  have "lexJson Outside (join '','' (map f (x # y # ys)) @ r)
      = lexJson Outside (f x @ CHR '','' # join '','' (map f (y # ys)) @ r)" by simp
  also have "\<dots> = map_option (\<lambda>ts. tok x @ ts)
       (map_option (\<lambda>ts. Comma # ts) (lexJson Outside (join '','' (map f (y # ys)) @ r)))"
    by (simp add: x outsideStep_punctuation append_singleton_fun del: join.simps)
  also have "\<dots> = map_option (\<lambda>ts. tok x @ ts)
       (map_option (\<lambda>ts. Comma # ts)
          (map_option (\<lambda>ts. tok y @ concat (map (\<lambda>y. Comma # tok y) ys) @ ts) (lexJson Outside r)))"
    by (simp only: ih)
  finally show ?case
    by (simp add: option.map_comp comp_def del: join.simps)
qed

lemma lex_array:
  assumes "\<And>y r. y \<in> set (x # xs) \<Longrightarrow>
             lexJson Outside (f y @ r) = map_option (\<lambda>ts. tok y @ ts) (lexJson Outside r)"
  shows "lexJson Outside (jsonArray (map f (x # xs))) =
           Some (LBracket # tok x @ concat (map (\<lambda>y. Comma # tok y) xs) @ [RBracket])"
proof -
  have "lexJson Outside (jsonArray (map f (x # xs)))
      = map_option (\<lambda>ts. LBracket # ts) (lexJson Outside (join '','' (map f (x # xs)) @ '']''))"
    by (simp add: jsonArray_def outsideStep_punctuation append_singleton_fun del: join.simps)
  also have "\<dots> = map_option (\<lambda>ts. LBracket # ts)
       (map_option (\<lambda>ts. tok x @ concat (map (\<lambda>y. Comma # tok y) xs) @ ts) (lexJson Outside '']''))"
    by (simp only: lex_join[of x xs f tok, OF assms])
  finally show ?thesis by (simp add: outsideStep_punctuation)
qed

lemma lex_empty_array: "lexJson Outside (jsonArray []) = Some [LBracket, RBracket]"
  by (simp add: jsonArray_def outsideStep_punctuation)

lemma stringElements_tokens:
  "stringElements (concat (map (\<lambda>y. Comma # [StringToken y]) xs) @ [RBracket]) = Some xs"
  by (induction xs) simp_all

lemma JSON_parse_strings_stringify:
  "JSON_parse_strings (jsonArray (map jsonString xs)) = Some xs"
proof (cases xs)
  case Nil
  then show ?thesis by (simp add: JSON_parse_strings_def lex_empty_array)
next
  case (Cons x xs')
  have "lexJson Outside (jsonArray (map jsonString (x # xs'))) =
          Some (LBracket # [StringToken x] @ concat (map (\<lambda>y. Comma # [StringToken y]) xs') @ [RBracket])"
    by (rule lex_array) (simp add: lex_jsonString)
  then show ?thesis
    by (simp add: Cons JSON_parse_strings_def stringElements_tokens del: map_append)
qed

subsection \<open>Numbers written and read back\<close>

text \<open>Rounding is symmetric, and the decimal that is printed for a number rounds to it.\<close>

lemma roundHalfEven_minus: "roundHalfEven (- x) = - roundHalfEven x"
proof (cases "x = of_int \<lfloor>x\<rfloor>")
  case True
  then have "\<lfloor>- x\<rfloor> = - \<lfloor>x\<rfloor>" by (metis floor_of_int of_int_minus)
  with True show ?thesis by (simp add: roundHalfEven_def Let_def)
next
  case False
  then have f: "\<lfloor>- x\<rfloor> = - \<lfloor>x\<rfloor> - 1" by (simp add: floor_minus ceiling_altdef)
  have lo: "of_int \<lfloor>x\<rfloor> < x" using False by (metis of_int_floor_le order_less_le)
  have par: "even (- \<lfloor>x\<rfloor> - 1) = odd \<lfloor>x\<rfloor>" by simp
  show ?thesis
    unfolding roundHalfEven_def Let_def f par using lo
    by (auto simp: field_simps)
qed

lemma roundDouble_cases:
  "y \<noteq> 0 \<Longrightarrow> roundDouble y =
     (if of_int (roundHalfEven (y / 2 powi max (ilog2 \<bar>y\<bar> - 52) (- 1074))) * 2 powi max (ilog2 \<bar>y\<bar> - 52) (- 1074) \<noteq> (0::rat)
         \<and> 1024 \<le> ilog2 \<bar>of_int (roundHalfEven (y / 2 powi max (ilog2 \<bar>y\<bar> - 52) (- 1074))) * 2 powi max (ilog2 \<bar>y\<bar> - 52) (- 1074)\<bar>
      then Infinity (0 < y)
      else Finite (of_int (roundHalfEven (y / 2 powi max (ilog2 \<bar>y\<bar> - 52) (- 1074))) * 2 powi max (ilog2 \<bar>y\<bar> - 52) (- 1074)))"
  by (simp only: roundDouble_def Let_def if_False)

lemma roundDouble_minus:
  assumes "roundDouble y = Finite x"
  shows "roundDouble (- y) = Finite (- x)"
proof (cases "y = 0")
  case True
  with assms show ?thesis by (simp add: roundDouble_def)
next
  case False
  define q where "q = max (ilog2 \<bar>y\<bar> - 52) (- 1074)"
  define r where "r = (of_int (roundHalfEven (y / 2 powi q)) :: rat) * 2 powi q"
  have y: "roundDouble y = (if r \<noteq> 0 \<and> 1024 \<le> ilog2 \<bar>r\<bar> then Infinity (0 < y) else Finite r)"
    unfolding r_def q_def by (rule roundDouble_cases[OF False])
  with assms have no: "\<not> (r \<noteq> 0 \<and> 1024 \<le> ilog2 \<bar>r\<bar>)" and rx: "r = x"
    by (simp_all split: if_splits)
  have q': "max (ilog2 \<bar>- y\<bar> - 52) (- 1074) = q" by (simp add: q_def)
  have "- y / 2 powi q = - (y / 2 powi q)" by simp
  then have r': "(of_int (roundHalfEven (- y / 2 powi q)) :: rat) * 2 powi q = - r"
    by (simp only: roundHalfEven_minus r_def of_int_minus mult_minus_left)
  have ny: "- y \<noteq> 0" using False by simp
  have "roundDouble (- y) = (if - r \<noteq> 0 \<and> 1024 \<le> ilog2 \<bar>- r\<bar> then Infinity (0 < - y) else Finite (- r))"
    using roundDouble_cases[OF ny] unfolding q' r' .
  also have "\<dots> = Finite (- r)" using no by simp
  finally show ?thesis using rx by simp
qed

lemma candidateAt_rounds:
  "candidateAt x n k = Some (s, e) \<Longrightarrow> roundDouble (of_int s * 10 powi e) = Finite x"
  by (auto simp: candidateAt_def Let_def split: if_splits)

lemma exactDecimal_exact:
  assumes "x \<noteq> 0" and "roundDouble x = Finite x" and "exactDecimal x = (s, e)"
  shows "of_int s * 10 powi e = x"
proof -
  define q where "q = max (ilog2 \<bar>x\<bar> - 52) (- 1074)"
  define n where "n = roundHalfEven (x / 2 powi q)"
  have "roundDouble x = (if of_int n * 2 powi q \<noteq> (0::rat) \<and> 1024 \<le> ilog2 \<bar>of_int n * 2 powi q\<bar>
          then Infinity (0 < x) else Finite (of_int n * 2 powi q))"
    using assms(1) by (simp add: roundDouble_def Let_def q_def n_def)
  with assms(2) have x: "x = of_int n * 2 powi q" by (auto split: if_splits)
  show ?thesis
  proof (cases "0 \<le> q")
    case True
    with assms(3) have "s = n * 2 ^ nat q" "e = 0"
      by (simp_all add: exactDecimal_def Let_def q_def[symmetric] n_def[symmetric])
    moreover have "(2::rat) powi q = 2 ^ nat q" using True by (simp add: power_int_def)
    ultimately show ?thesis using x by simp
  next
    case False
    with assms(3) have s: "s = n * 5 ^ nat (- q)" and e: "e = q"
      by (auto simp: exactDecimal_def Let_def q_def[symmetric] n_def[symmetric])
    have p2: "(2::rat) powi q = 1 / 2 ^ nat (- q)" using False by (simp add: power_int_def field_simps)
    have p10: "(10::rat) powi q = 1 / (2 ^ nat (- q) * 5 ^ nat (- q))"
    proof -
      have "(10::rat) ^ nat (- q) = (2 * 5) ^ nat (- q)" by simp
      also have "\<dots> = 2 ^ nat (- q) * 5 ^ nat (- q)" by (rule power_mult_distrib)
      finally show ?thesis using False by (simp add: power_int_def field_simps)
    qed
    show ?thesis unfolding s e p10 using x p2 by simp
  qed
qed

lemma shortestFrom_rounds:
  assumes "x \<noteq> 0" and "roundDouble x = Finite x"
  shows "shortestFrom x n k fuel = (s, e) \<Longrightarrow> roundDouble (of_int s * 10 powi e) = Finite x"
proof (induction fuel arbitrary: k)
  case 0
  then have "of_int s * 10 powi e = x" using exactDecimal_exact[OF assms] by simp
  with assms(2) show ?case by simp
next
  case (Suc fuel)
  show ?case
  proof (cases "candidateAt x n k")
    case None
    with Suc.prems have "shortestFrom x n (Suc k) fuel = (s, e)" by simp
    then show ?thesis by (rule Suc.IH)
  next
    case (Some c)
    with Suc.prems have "candidateAt x n k = Some (s, e)" by simp
    then show ?thesis by (rule candidateAt_rounds)
  qed
qed

lemma roundHalfEven_nonneg: "0 \<le> x \<Longrightarrow> 0 \<le> roundHalfEven x"
  by (simp add: roundHalfEven_def Let_def)

lemma candidateAt_nonneg:
  "0 < x \<Longrightarrow> candidateAt x n k = Some (s, e) \<Longrightarrow> 0 \<le> s"
  by (auto simp: candidateAt_def Let_def split: if_splits)

lemma exactDecimal_nonneg: "0 < x \<Longrightarrow> exactDecimal x = (s, e) \<Longrightarrow> 0 \<le> s"
  by (auto simp: exactDecimal_def Let_def roundHalfEven_nonneg split: if_splits)

lemma shortestFrom_nonneg:
  assumes "0 < x"
  shows "shortestFrom x n k fuel = (s, e) \<Longrightarrow> 0 \<le> s"
proof (induction fuel arbitrary: k)
  case 0
  then show ?case using exactDecimal_nonneg[OF assms] by simp
next
  case (Suc fuel)
  show ?case
  proof (cases "candidateAt x n k")
    case None
    with Suc.prems have "shortestFrom x n (Suc k) fuel = (s, e)" by simp
    then show ?thesis by (rule Suc.IH)
  next
    case (Some c)
    with Suc.prems have "candidateAt x n k = Some (s, e)" by simp
    then show ?thesis using candidateAt_nonneg[OF assms] by blast
  qed
qed

lemma shortestFrom_positive:
  assumes "0 < x" and "roundDouble x = Finite x" and "shortestFrom x n k fuel = (s, e)"
  shows "0 < s"
proof -
  have "s \<noteq> 0"
  proof
    assume "s = 0"
    with shortestFrom_rounds[OF _ assms(2,3)] assms(1) show False by (simp add: roundDouble_def)
  qed
  with shortestFrom_nonneg[OF assms(1,3)] show ?thesis by simp
qed

text \<open>Digit strings and their values.\<close>

lemma digit_cases: "0 \<le> d \<Longrightarrow> d < 10 \<Longrightarrow> d \<in> {0, 1, 2, 3, 4, 5, 6, 7, 8, 9 :: int}"
  by simp presburger

lemma char_eq_int: "(c = d) = ((of_char c :: int) = of_char d)"
  by simp

lemma isDigit_digitChar: "0 \<le> d \<Longrightarrow> d < 10 \<Longrightarrow> isDigit (digitChar d)"
  using digit_cases[of d] by (auto simp: isDigit_def digitChar_def char_eq_int)

lemma of_char_digitChar: "0 \<le> d \<Longrightarrow> d < 10 \<Longrightarrow> (of_char (digitChar d) :: int) = 48 + d"
  by (simp add: digitChar_def)

lemma digitChar_zero_iff: "0 \<le> d \<Longrightarrow> d < 10 \<Longrightarrow> (digitChar d = CHR ''0'') = (d = 0)"
  using digit_cases[of d] by (auto simp: digitChar_def char_eq_int)

lemma intDigits_nonempty: "intDigits n \<noteq> []"
  by (subst intDigits.simps) simp

lemma intDigits_digits: "0 \<le> n \<Longrightarrow> list_all isDigit (intDigits n)"
proof (induction n rule: intDigits.induct)
  case (1 n)
  show ?case
  proof (cases "n < 10")
    case True
    with 1(2) show ?thesis by (subst intDigits.simps) (simp add: isDigit_digitChar)
  next
    case False
    then have "list_all isDigit (intDigits (n div 10))" using 1 by simp
    moreover have "isDigit (digitChar (n mod 10))" by (rule isDigit_digitChar) simp_all
    ultimately show ?thesis using False by (subst intDigits.simps) simp
  qed
qed

lemma digitsValue_snoc: "digitsValue (xs @ [c]) = 10 * digitsValue xs + (of_char c - 48)"
  by (simp add: digitsValue_def)

lemma digitsValue_intDigits: "0 \<le> n \<Longrightarrow> digitsValue (intDigits n) = n"
proof (induction n rule: intDigits.induct)
  case (1 n)
  show ?case
  proof (cases "n < 10")
    case True
    with 1(2) show ?thesis
      by (subst intDigits.simps) (simp add: digitsValue_def of_char_digitChar)
  next
    case False
    then have "digitsValue (intDigits (n div 10)) = n div 10" using 1 by simp
    moreover have "(of_char (digitChar (n mod 10)) :: int) = 48 + n mod 10"
      by (rule of_char_digitChar) simp_all
    ultimately show ?thesis using False
      by (subst intDigits.simps) (simp add: digitsValue_snoc)
  qed
qed

lemma hd_intDigits: "0 < n \<Longrightarrow> hd (intDigits n) \<noteq> CHR ''0''"
proof (induction n rule: intDigits.induct)
  case (1 n)
  show ?case
  proof (cases "n < 10")
    case True
    with 1(2) show ?thesis
      by (subst intDigits.simps) (simp add: digitChar_zero_iff)
  next
    case False
    then have "hd (intDigits (n div 10)) \<noteq> CHR ''0''" using 1 by simp
    then show ?thesis using False
      by (subst intDigits.simps) (simp add: intDigits_nonempty)
  qed
qed

lemma digitsValue_append:
  "digitsValue (a @ b) = digitsValue a * 10 ^ length b + digitsValue b"
proof (induction b rule: rev_induct)
  case Nil
  show ?case by (simp add: digitsValue_def)
next
  case (snoc c b)
  have "digitsValue (a @ b @ [c]) = 10 * digitsValue (a @ b) + (of_char c - 48)"
    using digitsValue_snoc[of "a @ b" c] by simp
  then show ?case by (simp add: snoc.IH digitsValue_snoc algebra_simps)
qed

lemma digitsValue_zeros: "digitsValue (replicate m CHR ''0'') = 0"
  by (induction m) (simp_all add: digitsValue_def)

lemma digitsValue_zeros_append: "digitsValue (replicate m CHR ''0'' @ ds) = digitsValue ds"
  by (simp add: digitsValue_append digitsValue_zeros)

lemma digitsValue_append_zeros: "digitsValue (ds @ replicate m CHR ''0'') = digitsValue ds * 10 ^ m"
  by (simp add: digitsValue_append digitsValue_zeros)

text \<open>The digits without their trailing zeros.\<close>

lemma strip_trailing:
  fixes ds :: string
  defines "z \<equiv> length (takeWhile (\<lambda>c. c = CHR ''0'') (rev ds))"
  defines "digits \<equiv> take (length ds - z) ds"
  shows "ds = digits @ replicate z CHR ''0''"
proof -
  have split: "rev ds = takeWhile (\<lambda>c. c = CHR ''0'') (rev ds) @ dropWhile (\<lambda>c. c = CHR ''0'') (rev ds)"
    by simp
  have zeros: "takeWhile (\<lambda>c. c = CHR ''0'') (rev ds) = replicate z CHR ''0''"
    unfolding z_def by (rule replicate_length_same[symmetric]) (auto dest: set_takeWhileD)
  have "rev (rev ds) = rev (takeWhile (\<lambda>c. c = CHR ''0'') (rev ds) @ dropWhile (\<lambda>c. c = CHR ''0'') (rev ds))"
    by (simp only: takeWhile_dropWhile_id)
  then have "ds = rev (dropWhile (\<lambda>c. c = CHR ''0'') (rev ds)) @ rev (takeWhile (\<lambda>c. c = CHR ''0'') (rev ds))"
    by (simp only: rev_append rev_rev_ident)
  then have ds: "ds = rev (dropWhile (\<lambda>c. c = CHR ''0'') (rev ds)) @ replicate z CHR ''0''"
    by (simp add: zeros)
  have "length (takeWhile (\<lambda>c. c = CHR ''0'') (rev ds)) + length (dropWhile (\<lambda>c. c = CHR ''0'') (rev ds))
       = length (rev ds)"
    by (metis length_append takeWhile_dropWhile_id)
  then have "length (rev (dropWhile (\<lambda>c. c = CHR ''0'') (rev ds))) = length ds - z"
    unfolding z_def length_rev by linarith
  then have "digits = rev (dropWhile (\<lambda>c. c = CHR ''0'') (rev ds))"
    unfolding digits_def using ds by (metis append_eq_conv_conj)
  with ds show ?thesis by simp
qed

lemma strip_trailing_nonempty:
  fixes ds :: string
  assumes "ds \<noteq> []" and "hd ds \<noteq> CHR ''0''"
  shows "take (length ds - length (takeWhile (\<lambda>c. c = CHR ''0'') (rev ds))) ds \<noteq> []"
proof
  assume "take (length ds - length (takeWhile (\<lambda>c. c = CHR ''0'') (rev ds))) ds = []"
  with strip_trailing[of ds]
  have "ds = replicate (length (takeWhile (\<lambda>c. c = CHR ''0'') (rev ds))) CHR ''0''" by simp
  then have "set ds \<subseteq> {CHR ''0''}" by (metis set_replicate_conv_if empty_subsetI subset_refl)
  with assms show False by (cases ds) auto
qed

lemma isDigit_other:
  assumes "isDigit c"
  shows "\<not> isWhiteSpace c" "c \<noteq> CHR ''-''" "c \<noteq> CHR ''+''" "c \<noteq> CHR ''.''" "c \<noteq> CHR ''e''"
    "c \<noteq> CHR ''E''" "c \<noteq> CHR ''I''"
  using assms by (auto simp: isDigit_def isWhiteSpace_def)

lemma takeWhile_digits:
  assumes "list_all isDigit ds" and "r = [] \<or> \<not> isDigit (hd r)"
  shows "takeWhile isDigit (ds @ r) = ds" and "dropWhile isDigit (ds @ r) = r"
proof -
  have a: "\<And>x. x \<in> set ds \<Longrightarrow> isDigit x" using assms(1) by (simp add: list_all_iff)
  have r: "takeWhile isDigit r = []" "dropWhile isDigit r = r"
    using assms(2) by (cases r; simp)+
  show "takeWhile isDigit (ds @ r) = ds" using a r by (simp add: takeWhile_append2)
  show "dropWhile isDigit (ds @ r) = r" using a r by (simp add: dropWhile_append2)
qed

text \<open>
  A text made of an integer part, an optional fraction and an optional exponent, as a
  JSON number: what \<open>parseJsonNumber\<close> reads from it, with and without a minus sign.
\<close>

lemma parseJsonNumber_parts:
  assumes ip: "ip \<noteq> []" "list_all isDigit ip" "length ip = 1 \<or> hd ip \<noteq> CHR ''0''"
    and fp: "list_all isDigit fp"
    and es: "(es = [] \<and> E = 0) \<or>
             (\<exists>sg ed. es = CHR ''e'' # sg # ed \<and> (sg = CHR ''-'' \<or> sg = CHR ''+'') \<and> ed \<noteq> []
                \<and> list_all isDigit ed \<and> E = (if sg = CHR ''-'' then - digitsValue ed else digitsValue ed))"
  defines "u \<equiv> ip @ (if fp = [] then [] else CHR ''.'' # fp) @ es"
  defines "V \<equiv> of_int (digitsValue (ip @ fp)) * 10 powi (E - int (length fp))"
  shows "parseJsonNumber u = Some (roundDouble V)"
    and "parseJsonNumber (CHR ''-'' # u) = Some (roundDouble (- V))"
proof -
  define r1 where "r1 = (if fp = [] then [] else CHR ''.'' # fp) @ es"
  have u: "u = ip @ r1" by (simp add: u_def r1_def)
  obtain a ip' where ipc: "ip = a # ip'" using ip(1) by (cases ip) auto
  with ip(2) have a: "isDigit a" by simp
  have esh: "es = [] \<or> hd es = CHR ''e''" using es by auto
  have r1h: "r1 = [] \<or> \<not> isDigit (hd r1)"
    using esh by (auto simp: r1_def isDigit_def)
  have ipu: "takeWhile isDigit u = ip" and r1u: "dropWhile isDigit u = r1"
    unfolding u using takeWhile_digits[OF ip(2) r1h] by simp_all
  have esd: "es = [] \<or> \<not> isDigit (hd es)" using esh by (auto simp: isDigit_def)
  have fpu: "(case r1 of c # r \<Rightarrow> if c = CHR ''.'' then takeWhile isDigit r else [] | [] \<Rightarrow> []) = fp"
    using takeWhile_digits(1)[OF fp esd] esh by (cases es) (auto simp: r1_def)
  have r2u: "(case r1 of c # r \<Rightarrow> if c = CHR ''.'' then dropWhile isDigit r else r1 | [] \<Rightarrow> r1) = es"
    using takeWhile_digits(2)[OF fp esd] esh by (cases es) (auto simp: r1_def)
  have exu: "exponentPart es = E"
    using es
  proof
    assume "es = [] \<and> E = 0" then show ?thesis by (simp add: exponentPart_def)
  next
    assume "\<exists>sg ed. es = CHR ''e'' # sg # ed \<and> (sg = CHR ''-'' \<or> sg = CHR ''+'') \<and> ed \<noteq> []
                \<and> list_all isDigit ed \<and> E = (if sg = CHR ''-'' then - digitsValue ed else digitsValue ed)"
    then obtain sg ed where e: "es = CHR ''e'' # sg # ed" "sg = CHR ''-'' \<or> sg = CHR ''+''" "ed \<noteq> []"
      "list_all isDigit ed" "E = (if sg = CHR ''-'' then - digitsValue ed else digitsValue ed)" by blast
    have tw: "takeWhile isDigit ed = ed" using takeWhile_digits(1)[OF e(4), of "[]"] by simp
    from e(2,3) show ?thesis
      by (auto simp add: e(1,5) exponentPart_def signPart_def Let_def tw)
  qed
  have ex2: "(case es of c # r \<Rightarrow>
                  if c = CHR ''e'' \<or> c = CHR ''E''
                  then (case signPart r of (neg, d) \<Rightarrow> d) else ''x''
                | [] \<Rightarrow> ''0'') \<noteq> []
       \<and> list_all isDigit (case es of c # r \<Rightarrow>
                  if c = CHR ''e'' \<or> c = CHR ''E''
                  then (case signPart r of (neg, d) \<Rightarrow> d) else ''x''
                | [] \<Rightarrow> ''0'')"
    using es by (auto simp: signPart_def isDigit_def)
  have dot: "\<not> (r1 \<noteq> [] \<and> hd r1 = CHR ''.'' \<and> fp = [])"
    using esh by (auto simp: r1_def)
  have lead: "\<not> (1 < length ip \<and> hd ip = CHR ''0'')" using ip(3) by auto
  have uc: "u = a # ip' @ r1" by (simp add: u ipc)
  have su: "(case u of c # r \<Rightarrow> if c = CHR ''-'' then r else u | [] \<Rightarrow> u) = u"
    using isDigit_other(2)[OF a] by (simp add: uc)
  have ws: "dropWhile isWhiteSpace u = u" using isDigit_other(1)[OF a] by (simp add: uc)
  have sp: "signPart u = (False, u)"
    using isDigit_other(2,3)[OF a] by (simp add: uc signPart_def)
  have inf: "take 8 u \<noteq> ''Infinity''" using isDigit_other(7)[OF a] by (simp add: uc)
  have pf: "parseFloat u = roundDouble V"
    unfolding parseFloat_def Let_def ws sp prod.case ipu r1u fpu r2u exu using inf ip(1)
    by (simp add: V_def)
  have wsm: "dropWhile isWhiteSpace (CHR ''-'' # u) = CHR ''-'' # u" by (simp add: isWhiteSpace_def)
  have spm: "signPart (CHR ''-'' # u) = (True, u)" by (simp add: signPart_def)
  have pfm: "parseFloat (CHR ''-'' # u) = roundDouble (- V)"
    unfolding parseFloat_def Let_def wsm spm prod.case ipu r1u fpu r2u exu using inf ip(1)
    by (simp add: V_def)
  show "parseJsonNumber u = Some (roundDouble V)"
    unfolding parseJsonNumber_def Let_def su ipu r1u fpu r2u pf using ip(1) lead dot ex2
    by simp
  show "parseJsonNumber (CHR ''-'' # u) = Some (roundDouble (- V))"
  proof -
    have sm: "(case CHR ''-'' # u of c # r \<Rightarrow> if c = CHR ''-'' then r else CHR ''-'' # u
                | [] \<Rightarrow> CHR ''-'' # u) = u" by simp
    show ?thesis
      unfolding parseJsonNumber_def Let_def sm ipu r1u fpu r2u pfm
      using ip(1) lead dot ex2 by simp
  qed
qed

text \<open>Each of the five forms in which a number is printed is read back as its value.\<close>

lemma isDigit_literal: "isDigit c \<Longrightarrow> isLiteralChar c"
  by (auto simp: isDigit_def isLiteralChar_def)

lemma digits_literal: "list_all isDigit ds \<Longrightarrow> list_all isLiteralChar ds"
  by (induction ds) (simp_all add: isDigit_literal)

lemma number_parts_literal:
  assumes "ip \<noteq> []" and "list_all isDigit ip" and "list_all isDigit fp"
    and "es = [] \<or> (\<exists>sg ed. es = CHR ''e'' # sg # ed \<and> (sg = CHR ''-'' \<or> sg = CHR ''+'')
                        \<and> list_all isDigit ed)"
  shows "ip @ (if fp = [] then [] else CHR ''.'' # fp) @ es \<noteq> []"
    and "list_all isLiteralChar (ip @ (if fp = [] then [] else CHR ''.'' # fp) @ es)"
proof -
  show "ip @ (if fp = [] then [] else CHR ''.'' # fp) @ es \<noteq> []" using assms(1) by simp
  have "list_all isLiteralChar es"
    using assms(4) by (auto simp: digits_literal isLiteralChar_def)
  then show "list_all isLiteralChar (ip @ (if fp = [] then [] else CHR ''.'' # fp) @ es)"
    using assms(2,3) by (simp add: digits_literal) (simp add: isLiteralChar_def)
qed

lemma zeros_digits: "list_all isDigit (replicate m CHR ''0'')"
  by (induction m) (simp_all add: isDigit_def)

lemma number_text_plain:
  assumes "T = ip @ (if fp = [] then [] else CHR ''.'' # fp)"
    and "ip \<noteq> []" and "list_all isDigit ip" and "length ip = 1 \<or> hd ip \<noteq> CHR ''0''"
    and "list_all isDigit fp"
    and "of_int (digitsValue (ip @ fp)) * 10 powi (- int (length fp)) = V"
  shows "parseJsonNumber T = Some (roundDouble V)
       \<and> parseJsonNumber (CHR ''-'' # T) = Some (roundDouble (- V))
       \<and> T \<noteq> [] \<and> list_all isLiteralChar T"
proof -
  have es: "(([]::string) = [] \<and> (0::int) = 0) \<or>
             (\<exists>sg ed. ([]::string) = CHR ''e'' # sg # ed \<and> (sg = CHR ''-'' \<or> sg = CHR ''+'') \<and> ed \<noteq> []
                \<and> list_all isDigit ed \<and> (0::int) = (if sg = CHR ''-'' then - digitsValue ed else digitsValue ed))"
    by simp
  have es': "([]::string) = [] \<or> (\<exists>sg ed. ([]::string) = CHR ''e'' # sg # ed \<and> (sg = CHR ''-'' \<or> sg = CHR ''+'')
                        \<and> list_all isDigit ed)" by simp
  have T: "T = ip @ (if fp = [] then [] else CHR ''.'' # fp) @ []" using assms(1) by simp
  have V: "of_int (digitsValue (ip @ fp)) * 10 powi (0 - int (length fp)) = V" using assms(6) by simp
  show ?thesis
    unfolding T V[symmetric]
    using parseJsonNumber_parts[OF assms(2,3,4,5) es] number_parts_literal[OF assms(2,3,5) es']
    by blast
qed

lemma number_text_exponent:
  assumes "T = ip @ (if fp = [] then [] else CHR ''.'' # fp) @ CHR ''e'' # sg # ed"
    and "ip \<noteq> []" and "list_all isDigit ip" and "length ip = 1 \<or> hd ip \<noteq> CHR ''0''"
    and "list_all isDigit fp"
    and "sg = CHR ''-'' \<or> sg = CHR ''+''" and "ed \<noteq> []" and "list_all isDigit ed"
    and "of_int (digitsValue (ip @ fp)) *
           10 powi ((if sg = CHR ''-'' then - digitsValue ed else digitsValue ed) - int (length fp)) = V"
  shows "parseJsonNumber T = Some (roundDouble V)
       \<and> parseJsonNumber (CHR ''-'' # T) = Some (roundDouble (- V))
       \<and> T \<noteq> [] \<and> list_all isLiteralChar T"
proof -
  define E where "E = (if sg = CHR ''-'' then - digitsValue ed else digitsValue ed)"
  have es: "(CHR ''e'' # sg # ed = [] \<and> E = 0) \<or>
             (\<exists>sg' ed'. CHR ''e'' # sg # ed = CHR ''e'' # sg' # ed' \<and> (sg' = CHR ''-'' \<or> sg' = CHR ''+'') \<and> ed' \<noteq> []
                \<and> list_all isDigit ed' \<and> E = (if sg' = CHR ''-'' then - digitsValue ed' else digitsValue ed'))"
    using assms(6,7,8) E_def by blast
  have es': "CHR ''e'' # sg # ed = [] \<or> (\<exists>sg' ed'. CHR ''e'' # sg # ed = CHR ''e'' # sg' # ed'
                 \<and> (sg' = CHR ''-'' \<or> sg' = CHR ''+'') \<and> list_all isDigit ed')"
    using assms(6,8) by blast
  have V: "of_int (digitsValue (ip @ fp)) * 10 powi (E - int (length fp)) = V"
    using assms(9) by (simp add: E_def)
  show ?thesis
    unfolding assms(1) V[symmetric]
    using parseJsonNumber_parts[OF assms(2,3,4,5) es] number_parts_literal[OF assms(2,3,5) es']
    by blast
qed

lemma format_parse:
  fixes digits :: string and n :: int
  assumes d: "digits \<noteq> []" "list_all isDigit digits" "hd digits \<noteq> CHR ''0''"
  defines "k \<equiv> int (length digits)"
  defines "T \<equiv> (if - 6 < n \<and> n \<le> 21 then
              (if k \<le> n then digits @ replicate (nat (n - k)) CHR ''0''
               else if 0 < n then take (nat n) digits @ ''.'' @ drop (nat n) digits
               else ''0.'' @ replicate (nat (- n)) CHR ''0'' @ digits)
            else
              (let es = (if n - 1 < 0 then ''-'' else ''+'') @ intDigits \<bar>n - 1\<bar>
               in if k = 1 then digits @ ''e'' @ es
                  else take 1 digits @ ''.'' @ drop 1 digits @ ''e'' @ es))"
  defines "V \<equiv> of_int (digitsValue digits) * 10 powi (n - k)"
  shows "parseJsonNumber T = Some (roundDouble V)
       \<and> parseJsonNumber (CHR ''-'' # T) = Some (roundDouble (- V))
       \<and> T \<noteq> [] \<and> list_all isLiteralChar T"
proof (cases "- 6 < n \<and> n \<le> 21")
  case fixed: True
  show ?thesis
  proof (cases "k \<le> n")
    case True
    let ?ip = "digits @ replicate (nat (n - k)) CHR ''0''"
    show ?thesis
    proof (rule number_text_plain[where ip = ?ip and fp = "[]"])
      show "T = ?ip @ (if ([]::string) = [] then [] else CHR ''.'' # [])"
        using fixed True by (simp add: T_def)
      show "of_int (digitsValue (?ip @ [])) * 10 powi (- int (length ([]::string))) = V"
        using True by (simp add: V_def digitsValue_append_zeros power_int_def)
      show "?ip \<noteq> []" using d(1) by simp
      show "list_all isDigit ?ip" using d(2) by (simp add: zeros_digits)
      show "length ?ip = 1 \<or> hd ?ip \<noteq> CHR ''0''" using d(1,3) by simp
      show "list_all isDigit ([]::string)" by simp
    qed
  next
    case False
    show ?thesis
    proof (cases "0 < n")
      case True
      let ?ip = "take (nat n) digits" and ?fp = "drop (nat n) digits"
      have fpne: "?fp \<noteq> []" using False True by (simp add: k_def)
      have len: "int (length ?fp) = k - n" using False True by (simp add: k_def)
      show ?thesis
      proof (rule number_text_plain[where ip = ?ip and fp = ?fp])
        show "T = ?ip @ (if ?fp = [] then [] else CHR ''.'' # ?fp)"
          using fixed False True fpne by (simp add: T_def)
        show "of_int (digitsValue (?ip @ ?fp)) * 10 powi (- int (length ?fp)) = V"
          unfolding len by (simp add: V_def)
        show "?ip \<noteq> []" using True d(1) by simp
        show "length ?ip = 1 \<or> hd ?ip \<noteq> CHR ''0''" using True d(3) by (simp add: hd_take)
        show "list_all isDigit ?ip" using d(2) by (auto simp: list_all_iff dest: in_set_takeD)
        show "list_all isDigit ?fp" using d(2) by (auto simp: list_all_iff dest: in_set_dropD)
      qed
    next
      case n0: False
      let ?ip = "''0''" and ?fp = "replicate (nat (- n)) CHR ''0'' @ digits"
      have fpne: "?fp \<noteq> []" using d(1) by simp
      have len: "int (length ?fp) = - n + k" using n0 by (simp add: k_def)
      have dv: "digitsValue (?ip @ ?fp) = digitsValue digits"
        using digitsValue_zeros_append[of "Suc (nat (- n))" digits] by simp
      show ?thesis
      proof (rule number_text_plain[where ip = ?ip and fp = ?fp])
        show "T = ?ip @ (if ?fp = [] then [] else CHR ''.'' # ?fp)"
          using fixed False n0 fpne by (simp add: T_def)
        show "of_int (digitsValue (?ip @ ?fp)) * 10 powi (- int (length ?fp)) = V"
          unfolding len dv by (simp add: V_def)
        show "?ip \<noteq> []" by simp
        show "length ?ip = 1 \<or> hd ?ip \<noteq> CHR ''0''" by simp
        show "list_all isDigit ?ip" by (simp add: isDigit_def)
        show "list_all isDigit ?fp" using d(2) by (simp add: zeros_digits)
      qed
    qed
  qed
next
  case sci: False
  define sg where "sg = (if n - 1 < 0 then CHR ''-'' else CHR ''+'')"
  define ed where "ed = intDigits \<bar>n - 1\<bar>"
  have ed: "ed \<noteq> []" "list_all isDigit ed" "digitsValue ed = \<bar>n - 1\<bar>"
    by (simp_all add: ed_def intDigits_nonempty intDigits_digits digitsValue_intDigits
        del: intDigits.simps)
  have E: "(if sg = CHR ''-'' then - digitsValue ed else digitsValue ed) = n - 1"
    by (auto simp: sg_def ed(3))
  have sgc: "sg = CHR ''-'' \<or> sg = CHR ''+''" by (simp add: sg_def)
  have es: "(if n - 1 < 0 then ''-'' else ''+'') @ intDigits \<bar>n - 1\<bar> = sg # ed"
    by (simp add: sg_def ed_def del: intDigits.simps)
  have kpos: "0 < k" using d(1) by (simp add: k_def)
  show ?thesis
  proof (cases "k = 1")
    case True
    show ?thesis
    proof (rule number_text_exponent[where ip = digits and fp = "[]" and sg = sg and ed = ed])
      show "T = digits @ (if ([]::string) = [] then [] else CHR ''.'' # []) @ CHR ''e'' # sg # ed"
        using True unfolding T_def Let_def es by (simp only: sci if_False) simp
      show "of_int (digitsValue (digits @ [])) *
           10 powi ((if sg = CHR ''-'' then - digitsValue ed else digitsValue ed) - int (length ([]::string))) = V"
        unfolding E using True by (simp add: V_def)
      show "digits \<noteq> []" by (rule d(1))
      show "list_all isDigit digits" by (rule d(2))
      show "length digits = 1 \<or> hd digits \<noteq> CHR ''0''" using d(3) by simp
      show "list_all isDigit ([]::string)" by simp
      show "sg = CHR ''-'' \<or> sg = CHR ''+''" by (rule sgc)
      show "ed \<noteq> []" by (rule ed(1))
      show "list_all isDigit ed" by (rule ed(2))
    qed
  next
    case False
    let ?ip = "take 1 digits" and ?fp = "drop 1 digits"
    have k1: "1 < k" using False kpos by simp
    have fpne: "?fp \<noteq> []" using k1 by (simp add: k_def)
    have len: "int (length ?fp) = k - 1" using k1 by (simp add: k_def)
    show ?thesis
    proof (rule number_text_exponent[where ip = ?ip and fp = ?fp and sg = sg and ed = ed])
      show "T = ?ip @ (if ?fp = [] then [] else CHR ''.'' # ?fp) @ CHR ''e'' # sg # ed"
        using False fpne unfolding T_def Let_def es by (simp only: sci if_False) simp
      show "of_int (digitsValue (?ip @ ?fp)) *
           10 powi ((if sg = CHR ''-'' then - digitsValue ed else digitsValue ed) - int (length ?fp)) = V"
        unfolding E len by (simp add: V_def)
      show "?ip \<noteq> []" using d(1) by simp
      show "length ?ip = 1 \<or> hd ?ip \<noteq> CHR ''0''" using d(1) by (cases digits) simp_all
      show "list_all isDigit ?ip" using d(2) by (auto simp: list_all_iff dest: in_set_takeD)
      show "list_all isDigit ?fp" using d(2) by (auto simp: list_all_iff dest: in_set_dropD)
      show "sg = CHR ''-'' \<or> sg = CHR ''+''" by (rule sgc)
      show "ed \<noteq> []" by (rule ed(1))
      show "list_all isDigit ed" by (rule ed(2))
    qed
  qed
qed

lemma positiveToString_parse:
  assumes "0 < x" and "roundDouble x = Finite x"
  shows "parseJsonNumber (positiveToString x) = Some (Finite x)
       \<and> parseJsonNumber (CHR ''-'' # positiveToString x) = Some (Finite (- x))
       \<and> positiveToString x \<noteq> [] \<and> list_all isLiteralChar (positiveToString x)"
proof -
  obtain s e where se: "shortestFrom x (ilog10 x + 1) 1 17 = (s, e)" by (cases "shortestFrom x (ilog10 x + 1) 1 17")
  have x0: "x \<noteq> 0" using assms(1) by simp
  have rd: "roundDouble (of_int s * 10 powi e) = Finite x" by (rule shortestFrom_rounds[OF x0 assms(2) se])
  have spos: "0 < s" by (rule shortestFrom_positive[OF assms se])
  define ds where "ds = intDigits s"
  define z where "z = length (takeWhile (\<lambda>c. c = CHR ''0'') (rev ds))"
  define digits where "digits = take (length ds - z) ds"
  define k where "k = int (length digits)"
  define n where "n = e + int z + k"
  have ds: "ds = digits @ replicate z CHR ''0''"
    unfolding digits_def z_def by (rule strip_trailing)
  have dsne: "ds \<noteq> []" and hd: "hd ds \<noteq> CHR ''0''" and dsd: "list_all isDigit ds"
    and dsv: "digitsValue ds = s"
    using spos by (simp_all add: ds_def intDigits_nonempty hd_intDigits intDigits_digits
        digitsValue_intDigits del: intDigits.simps)
  have d1: "digits \<noteq> []" unfolding digits_def z_def by (rule strip_trailing_nonempty[OF dsne hd])
  have d2: "list_all isDigit digits" using dsd by (subst (asm) ds) simp
  have d3: "hd digits \<noteq> CHR ''0''" using hd d1 by (subst (asm) ds) simp
  have "digitsValue digits * 10 ^ z = s"
    using dsv by (subst (asm) ds) (simp add: digitsValue_append_zeros)
  then have "(of_int s :: rat) = of_int (digitsValue digits) * 10 ^ z" by (metis of_int_mult of_int_numeral of_int_power)
  moreover have "(10::rat) powi (e + int z) = 10 powi e * 10 ^ z"
    by (simp add: power_int_add)
  ultimately have V: "of_int (digitsValue digits) * 10 powi (n - k) = (of_int s :: rat) * 10 powi e"
    by (simp add: n_def)
  have T: "positiveToString x =
         (if - 6 < n \<and> n \<le> 21 then
              (if k \<le> n then digits @ replicate (nat (n - k)) CHR ''0''
               else if 0 < n then take (nat n) digits @ ''.'' @ drop (nat n) digits
               else ''0.'' @ replicate (nat (- n)) CHR ''0'' @ digits)
            else
              (let es = (if n - 1 < 0 then ''-'' else ''+'') @ intDigits \<bar>n - 1\<bar>
               in if k = 1 then digits @ ''e'' @ es
                  else take 1 digits @ ''.'' @ drop 1 digits @ ''e'' @ es))"
    unfolding positiveToString_def se prod.case Let_def n_def k_def digits_def z_def ds_def ..
  have rdm: "roundDouble (- (of_int s * 10 powi e)) = Finite (- x)" by (rule roundDouble_minus[OF rd])
  note fp = format_parse[OF d1 d2 d3, of n, folded k_def, unfolded V rd rdm]
  show ?thesis unfolding T by (rule fp)
qed

lemma jsonNumber_parse:
  assumes "finiteDouble a"
  shows "parseJsonNumber (jsonNumber a) = Some a \<and> jsonNumber a \<noteq> [] \<and> list_all isLiteralChar (jsonNumber a)"
proof -
  from assms obtain r where a: "a = Finite r" and r: "roundDouble r = Finite r"
    by (cases a) (simp_all add: finiteDouble_def)
  consider (zero) "r = 0" | (pos) "0 < r" | (neg) "r < 0" by linarith
  then show ?thesis
  proof cases
    case zero
    have "parseJsonNumber ''0'' = Some (roundDouble 0) \<and> parseJsonNumber (CHR ''-'' # ''0'') = Some (roundDouble (- 0))
       \<and> ''0'' \<noteq> [] \<and> list_all isLiteralChar ''0''"
      by (rule number_text_plain[where ip = "''0''" and fp = "[]"]) (simp_all add: isDigit_def digitsValue_def)
    then show ?thesis by (simp add: a zero jsonNumber_def numberToStringRef_def roundDouble_def)
  next
    case pos
    with positiveToString_parse[OF pos r] show ?thesis
      by (simp add: a jsonNumber_def numberToStringRef_def)
  next
    case neg
    then have p: "0 < - r" by simp
    have "roundDouble (- r) = Finite (- r)" by (rule roundDouble_minus[OF r])
    from positiveToString_parse[OF p this] neg show ?thesis
      by (simp add: a jsonNumber_def numberToStringRef_def isLiteralChar_def)
  qed
qed

subsection \<open>Transactions written and read back\<close>

lemma JSON_parse_number_stringify:
  assumes "finiteDouble a"
  shows "JSON_parse_number (jsonNumber a) = Some a"
  using jsonNumber_parse[OF assms] lex_literal_end[of "jsonNumber a"]
  by (simp add: JSON_parse_number_def)

text \<open>The members of the object written for a transaction, as tokens.\<close>

lemma lex_string_member:
  "lexJson Outside (jsonMember k (jsonString v) @ r) =
     map_option (\<lambda>ts. StringToken k # Colon # StringToken v # ts) (lexJson Outside r)"
  by (simp add: jsonMember_def lex_jsonString outsideStep_punctuation append_singleton_fun
      option.map_comp comp_def)

lemma lex_number_member:
  assumes "finiteDouble a"
  shows "lexJson Outside (jsonMember k (jsonNumber a) @ CHR '','' # r) =
     map_option (\<lambda>ts. StringToken k # Colon # LiteralToken (jsonNumber a) # Comma # ts) (lexJson Outside r)"
proof -
  have c: "\<not> isLiteralChar CHR '',''" by (simp add: isLiteralChar_def)
  have "lexJson Outside (jsonNumber a @ CHR '','' # r) =
          map_option (\<lambda>ts. LiteralToken (jsonNumber a) # ts) (lexJson Outside (CHR '','' # r))"
    using jsonNumber_parse[OF assms] by (intro lex_literal c) simp_all
  then show ?thesis
    by (simp add: jsonMember_def lex_jsonString outsideStep_punctuation append_singleton_fun
        option.map_comp comp_def)
qed

lemma lex_jsonTransaction:
  assumes "finiteDouble (amount t)"
  shows "lexJson Outside (jsonTransaction t @ r) =
           map_option (\<lambda>ts. objectTokens t @ ts) (lexJson Outside r)"
proof (cases "category t")
  case None
  then show ?thesis
    by (simp add: jsonTransaction_def objectTokens_def memberTokens_def lex_string_member
        lex_number_member[OF assms] outsideStep_punctuation append_singleton_fun
        option.map_comp comp_def)
next
  case (Some c)
  then show ?thesis
    by (simp add: jsonTransaction_def objectTokens_def memberTokens_def lex_string_member
        lex_number_member[OF assms] outsideStep_punctuation append_singleton_fun
        option.map_comp comp_def)
qed

lemma members_memberTokens: "members (memberTokens t) = Some (membersOf t)"
  by (cases "category t") (simp_all add: memberTokens_def membersOf_def isScalar_def)

lemma memberTokens_no_brace:
  "takeWhile (\<lambda>x. x \<noteq> RBrace) (memberTokens t @ RBrace # r) = memberTokens t"
  "dropWhile (\<lambda>x. x \<noteq> RBrace) (memberTokens t @ RBrace # r) = RBrace # r"
  by (cases "category t"; simp add: memberTokens_def)+

lemma typeOfString_typeString: "typeOfString (typeString k) = Some k"
  by (cases k) (simp_all add: typeOfString_def typeString_def)

lemma transactionOf_membersOf:
  assumes "finiteDouble (amount t)"
  shows "transactionOf (membersOf t) = Some t"
proof -
  have n: "parseJsonNumber (jsonNumber (amount t)) = Some (amount t)"
    using jsonNumber_parse[OF assms] by simp
  show ?thesis
    by (cases "category t")
      (simp_all add: transactionOf_def membersOf_def stringMember_def numberMember_def n
        typeOfString_typeString)
qed

lemma objects_objectTokens:
  "objects (objectTokens t @ concat (map (\<lambda>y. Comma # objectTokens y) ts) @ [RBracket]) =
     Some (map membersOf (t # ts))"
proof (induction ts arbitrary: t)
  case Nil
  show ?case
    by (simp add: objectTokens_def memberTokens_no_brace members_memberTokens)
next
  case (Cons y ys)
  have "objects (objectTokens t @ concat (map (\<lambda>y. Comma # objectTokens y) (y # ys)) @ [RBracket])
      = map_option (\<lambda>os. membersOf t # os)
          (objects (objectTokens y @ concat (map (\<lambda>y. Comma # objectTokens y) ys) @ [RBracket]))"
    by (simp add: objectTokens_def memberTokens_no_brace members_memberTokens)
  then show ?case by (simp add: Cons.IH)
qed

lemma those_transactionOf:
  "list_all (\<lambda>t. finiteDouble (amount t)) ts \<Longrightarrow> those (map transactionOf (map membersOf ts)) = Some ts"
  by (induction ts) (simp_all add: transactionOf_membersOf)

lemma JSON_parse_transactions_stringify:
  assumes "list_all (\<lambda>t. finiteDouble (amount t)) ts"
  shows "JSON_parse_transactions (jsonArray (map jsonTransaction ts)) = Some ts"
proof (cases ts)
  case Nil
  then show ?thesis by (simp add: JSON_parse_transactions_def lex_empty_array)
next
  case (Cons t ts')
  have "lexJson Outside (jsonArray (map jsonTransaction (t # ts'))) =
          Some (LBracket # objectTokens t @ concat (map (\<lambda>y. Comma # objectTokens y) ts') @ [RBracket])"
  proof (rule lex_array)
    fix y r assume "y \<in> set (t # ts')"
    with assms Cons have "finiteDouble (amount y)" by (auto simp: list_all_iff)
    then show "lexJson Outside (jsonTransaction y @ r) = map_option (\<lambda>ts. objectTokens y @ ts) (lexJson Outside r)"
      by (rule lex_jsonTransaction)
  qed
  moreover have "objectTokens t @ concat (map (\<lambda>y. Comma # objectTokens y) ts') @ [RBracket] \<noteq> [RBracket]"
    by (simp add: objectTokens_def)
  ultimately show ?thesis
    using those_transactionOf[OF assms]
    by (simp add: JSON_parse_transactions_def Cons objects_objectTokens del: objects.simps)
qed

subsection \<open>Saving and loading\<close>

lemma load_after_save:
  assumes "stringify (newValue val old) = Some w" and "w \<noteq> []"
    and "parse w = Some (newValue val old)" and "setItem st key w \<noteq> None"
  shows "initialStoredValue parse (snd (setValue stringify key val (old, st))) key d = newValue val old"
proof -
  from assms(4) obtain st' where st': "setItem st key w = Some st'" by auto
  have "snd (setValue stringify key val (old, st)) = st'"
    using assms(1) st' by (simp add: setValue_def newValue_def)
  moreover have "getItem st' key = Some w" using getItem_setItem[OF st'] by simp
  ultimately show ?thesis using assms(2,3) by (simp add: initialStoredValue_def)
qed

lemma jsonArray_not_empty: "jsonArray xs \<noteq> []"
  by (simp add: jsonArray_def)

lemma load_strings_after_save:
  assumes "stored (stringifyStrings referencePlatform) key (newValue val old) st"
  shows "initialStoredValue JSON_parse_strings
           (snd (setValue (stringifyStrings referencePlatform) key val (old, st))) key d = newValue val old"
proof (rule load_after_save)
  show "stringifyStrings referencePlatform (newValue val old)
          = Some (jsonArray (map jsonString (newValue val old)))"
    by (simp add: referencePlatform_def)
  show "jsonArray (map jsonString (newValue val old)) \<noteq> []" by (rule jsonArray_not_empty)
  show "JSON_parse_strings (jsonArray (map jsonString (newValue val old))) = Some (newValue val old)"
    by (rule JSON_parse_strings_stringify)
  show "setItem st key (jsonArray (map jsonString (newValue val old))) \<noteq> None"
    using assms by (simp add: stored_def referencePlatform_def)
qed

lemma jsonNumber_not_empty: "finiteDouble a \<Longrightarrow> jsonNumber a \<noteq> []"
  using jsonNumber_parse[of a] by simp

lemma load_number_after_save:
  assumes "finiteDouble (newValue val old)"
    and "stored (stringifyNumber referencePlatform) key (newValue val old) st"
  shows "initialStoredValue JSON_parse_number
           (snd (setValue (stringifyNumber referencePlatform) key val (old, st))) key d = newValue val old"
proof (rule load_after_save)
  show "stringifyNumber referencePlatform (newValue val old) = Some (jsonNumber (newValue val old))"
    by (simp add: referencePlatform_def)
  show "jsonNumber (newValue val old) \<noteq> []" by (rule jsonNumber_not_empty[OF assms(1)])
  show "JSON_parse_number (jsonNumber (newValue val old)) = Some (newValue val old)"
    by (rule JSON_parse_number_stringify[OF assms(1)])
  show "setItem st key (jsonNumber (newValue val old)) \<noteq> None"
    using assms(2) by (simp add: stored_def referencePlatform_def)
qed

lemma load_transactions_after_save:
  assumes "list_all (\<lambda>t. finiteDouble (amount t)) (newValue val old)"
    and "stored (stringifyTransactions referencePlatform) key (newValue val old) st"
  shows "initialStoredValue JSON_parse_transactions
           (snd (setValue (stringifyTransactions referencePlatform) key val (old, st))) key d
         = newValue val old"
proof (rule load_after_save)
  show "stringifyTransactions referencePlatform (newValue val old)
          = Some (jsonArray (map jsonTransaction (newValue val old)))"
    by (simp add: referencePlatform_def)
  show "jsonArray (map jsonTransaction (newValue val old)) \<noteq> []" by (rule jsonArray_not_empty)
  show "JSON_parse_transactions (jsonArray (map jsonTransaction (newValue val old))) = Some (newValue val old)"
    by (rule JSON_parse_transactions_stringify[OF assms(1)])
  show "setItem st key (jsonArray (map jsonTransaction (newValue val old))) \<noteq> None"
    using assms(2) by (simp add: stored_def referencePlatform_def)
qed

text \<open>
  Claim C8. Loading a key that was never written returns the default. When a value is
  saved under a key (given as it is or through an updater, written as \<^verbatim>\<open>JSON.stringify\<close>
  writes it, the store taking the write), loading the key, which reads the text with
  \<^verbatim>\<open>JSON.parse\<close>, returns the value saved. This holds at each of the types the program
  stores: lists of strings, numbers and lists of transactions, a number being a finite
  binary64 value.
\<close>

theorem storage_round_trip:
  "(getItem st key = None \<longrightarrow> initialStoredValue parse st key d = d)
   \<and> (stored (stringifyStrings referencePlatform) key (newValue vals olds) st \<longrightarrow>
        initialStoredValue JSON_parse_strings
          (snd (setValue (stringifyStrings referencePlatform) key vals (olds, st))) key ds
        = newValue vals olds)
   \<and> (finiteDouble (newValue valn oldn)
        \<and> stored (stringifyNumber referencePlatform) key (newValue valn oldn) st \<longrightarrow>
        initialStoredValue JSON_parse_number
          (snd (setValue (stringifyNumber referencePlatform) key valn (oldn, st))) key dn
        = newValue valn oldn)
   \<and> (list_all (\<lambda>t. finiteDouble (amount t)) (newValue valt oldt)
        \<and> stored (stringifyTransactions referencePlatform) key (newValue valt oldt) st \<longrightarrow>
        initialStoredValue JSON_parse_transactions
          (snd (setValue (stringifyTransactions referencePlatform) key valt (oldt, st))) key dt
        = newValue valt oldt)"
proof (intro conjI impI)
  assume "getItem st key = None"
  then show "initialStoredValue parse st key d = d" by (simp add: initialStoredValue_def)
next
  assume "stored (stringifyStrings referencePlatform) key (newValue vals olds) st"
  then show "initialStoredValue JSON_parse_strings
          (snd (setValue (stringifyStrings referencePlatform) key vals (olds, st))) key ds
        = newValue vals olds"
    by (rule load_strings_after_save)
next
  assume "finiteDouble (newValue valn oldn)
        \<and> stored (stringifyNumber referencePlatform) key (newValue valn oldn) st"
  then show "initialStoredValue JSON_parse_number
          (snd (setValue (stringifyNumber referencePlatform) key valn (oldn, st))) key dn
        = newValue valn oldn"
    using load_number_after_save by blast
next
  assume "list_all (\<lambda>t. finiteDouble (amount t)) (newValue valt oldt)
        \<and> stored (stringifyTransactions referencePlatform) key (newValue valt oldt) st"
  then show "initialStoredValue JSON_parse_transactions
          (snd (setValue (stringifyTransactions referencePlatform) key valt (oldt, st))) key dt
        = newValue valt oldt"
    using load_transactions_after_save by blast
qed

theorem storage_round_trip_witness:
  "getItem (localStorage emptyApp) ''key'' = None
   \<and> initialStoredValue JSON_parse_strings (localStorage emptyApp) ''key'' DEFAULT_CATEGORIES
       = DEFAULT_CATEGORIES
   \<and> stored (stringifyStrings referencePlatform) ''key''
        (newValue (Updater (\<lambda>prev. prev @ [''Viajes, '' @ [CHR 0x22] @ ''ocio'' @ [CHR 0x22, CHR 0x0A]]))
           DEFAULT_CATEGORIES)
        (localStorage emptyApp)
   \<and> initialStoredValue JSON_parse_strings
        (snd (setValue (stringifyStrings referencePlatform) ''key''
               (Updater (\<lambda>prev. prev @ [''Viajes, '' @ [CHR 0x22] @ ''ocio'' @ [CHR 0x22, CHR 0x0A]]))
               (DEFAULT_CATEGORIES, localStorage emptyApp)))
        ''key'' []
       = DEFAULT_CATEGORIES @ [''Viajes, '' @ [CHR 0x22] @ ''ocio'' @ [CHR 0x22, CHR 0x0A]]
   \<and> finiteDouble (newValue (Value (parseFloat ''-2500.75'')) DEFAULT_BUDGET)
   \<and> stored (stringifyNumber referencePlatform) ''key''
        (newValue (Value (parseFloat ''-2500.75'')) DEFAULT_BUDGET) (localStorage emptyApp)
   \<and> initialStoredValue JSON_parse_number
        (snd (setValue (stringifyNumber referencePlatform) ''key'' (Value (parseFloat ''-2500.75''))
               (DEFAULT_BUDGET, localStorage emptyApp)))
        ''key'' DEFAULT_BUDGET
       = Finite (- 10003 / 4)
   \<and> list_all (\<lambda>t. finiteDouble (amount t)) (newValue (Value decimalLedger) [])
   \<and> stored (stringifyTransactions referencePlatform) ''key'' (newValue (Value decimalLedger) [])
        (localStorage emptyApp)
   \<and> initialStoredValue JSON_parse_transactions
        (snd (setValue (stringifyTransactions referencePlatform) ''key'' (Value decimalLedger)
               ([], localStorage emptyApp)))
        ''key'' []
       = decimalLedger"
proof -
  let ?vals = "Updater (\<lambda>prev. prev @ [''Viajes, '' @ [CHR 0x22] @ ''ocio'' @ [CHR 0x22, CHR 0x0A]])"
  let ?valn = "Value (parseFloat ''-2500.75'')"
  let ?valt = "Value decimalLedger"
  have h0: "getItem (localStorage emptyApp) ''key'' = None"
    by (simp add: emptyApp_def getItem_def)
  have s1: "newValue ?vals DEFAULT_CATEGORIES
      = DEFAULT_CATEGORIES @ [''Viajes, '' @ [CHR 0x22] @ ''ocio'' @ [CHR 0x22, CHR 0x0A]]"
    by (simp add: newValue_def)
  have s2: "stored (stringifyStrings referencePlatform) ''key'' (newValue ?vals DEFAULT_CATEGORIES)
      (localStorage emptyApp)"
    by code_simp
  have n0: "parseFloat ''-2500.75'' = Finite (- 10003 / 4)" by code_simp
  have n1: "finiteDouble (newValue ?valn DEFAULT_BUDGET)" by code_simp
  have n2: "stored (stringifyNumber referencePlatform) ''key'' (newValue ?valn DEFAULT_BUDGET)
      (localStorage emptyApp)"
    by code_simp
  have t1: "list_all (\<lambda>t. finiteDouble (amount t)) (newValue ?valt [])" by code_simp
  have t2: "stored (stringifyTransactions referencePlatform) ''key'' (newValue ?valt [])
      (localStorage emptyApp)"
    by code_simp
  note inst = storage_round_trip[where st = "localStorage emptyApp" and key = "''key''"
      and parse = JSON_parse_strings and d = DEFAULT_CATEGORIES
      and vals = ?vals and olds = DEFAULT_CATEGORIES and ds = "[]"
      and valn = ?valn and oldn = DEFAULT_BUDGET and dn = DEFAULT_BUDGET
      and valt = ?valt and oldt = "[]" and dt = "[]"]
  from inst h0 have r0: "initialStoredValue JSON_parse_strings (localStorage emptyApp) ''key''
      DEFAULT_CATEGORIES = DEFAULT_CATEGORIES" by blast
  from inst s2 have r1: "initialStoredValue JSON_parse_strings
        (snd (setValue (stringifyStrings referencePlatform) ''key'' ?vals
               (DEFAULT_CATEGORIES, localStorage emptyApp))) ''key'' []
      = newValue ?vals DEFAULT_CATEGORIES"
    by blast
  from inst n1 n2 have r2: "initialStoredValue JSON_parse_number
        (snd (setValue (stringifyNumber referencePlatform) ''key'' ?valn
               (DEFAULT_BUDGET, localStorage emptyApp))) ''key'' DEFAULT_BUDGET
      = newValue ?valn DEFAULT_BUDGET"
    by blast
  from inst t1 t2 have r3: "initialStoredValue JSON_parse_transactions
        (snd (setValue (stringifyTransactions referencePlatform) ''key'' ?valt
               ([], localStorage emptyApp))) ''key'' []
      = newValue ?valt []"
    by blast
  have v2: "newValue ?valn DEFAULT_BUDGET = Finite (- 10003 / 4)" by (simp add: newValue_def n0)
  have v3: "newValue ?valt [] = decimalLedger" by (simp add: newValue_def)
  show ?thesis
    using h0 r0 s2 r1[unfolded s1] n1 n2 r2[unfolded v2] t1 t2 r3[unfolded v3] by blast
qed

text \<open>
  A write that the store refuses (a full store, or a private browsing mode with no quota)
  is caught: saving 2500 under \<^verbatim>\<open>budget\<close> sets the state and leaves the store alone,
  and loading the key returns the default 2000.
\<close>

lemma refused_write_example:
  "setValue (stringifyNumber referencePlatform) ''budget'' (Value (Finite 2500))
       (DEFAULT_BUDGET, fullStorage) = (Finite 2500, fullStorage)
   \<and> initialStoredValue JSON_parse_number
        (snd (setValue (stringifyNumber referencePlatform) ''budget'' (Value (Finite 2500))
               (DEFAULT_BUDGET, fullStorage))) ''budget'' DEFAULT_BUDGET = Finite 2000"
  by code_simp

section \<open>The exporter\<close>

text \<open>
  Claim C9. With an empty transaction collection \<^verbatim>\<open>exportToCsv\<close> shows the notice and
  does nothing else: the state is as before and no file is offered.
\<close>

theorem export_of_empty_collection:
  "transactions s = [] \<Longrightarrow> exportToCsv P s = (s, [Alert ''No hay transacciones para exportar.''])"
  by (simp add: exportToCsv_def)

theorem export_of_empty_collection_witness:
  "transactions emptyApp = []
   \<and> exportToCsv referencePlatform emptyApp = (emptyApp, [Alert ''No hay transacciones para exportar.''])"
proof -
  have h: "transactions emptyApp = []" by (simp add: emptyApp_def)
  from export_of_empty_collection[OF h] h show ?thesis by simp
qed

text \<open>
  Claim C10. With a non-empty collection \<^verbatim>\<open>exportToCsv\<close> leaves the transaction list,
  the category list, the user list, the budget and the store exactly as they were.
\<close>

theorem export_leaves_state:
  "transactions s \<noteq> [] \<Longrightarrow>
     fst (exportToCsv P s) = s
     \<and> transactions (fst (exportToCsv P s)) = transactions s
     \<and> categories (fst (exportToCsv P s)) = categories s
     \<and> users (fst (exportToCsv P s)) = users s
     \<and> budget (fst (exportToCsv P s)) = budget s
     \<and> localStorage (fst (exportToCsv P s)) = localStorage s"
  by (simp add: exportToCsv_def Let_def)

theorem export_leaves_state_witness:
  "transactions ledgerApp \<noteq> []
   \<and> fst (exportToCsv referencePlatform ledgerApp) = ledgerApp
   \<and> transactions (fst (exportToCsv referencePlatform ledgerApp)) = ledger
   \<and> categories (fst (exportToCsv referencePlatform ledgerApp)) = DEFAULT_CATEGORIES
   \<and> users (fst (exportToCsv referencePlatform ledgerApp)) = DEFAULT_USERS
   \<and> budget (fst (exportToCsv referencePlatform ledgerApp)) = DEFAULT_BUDGET"
proof -
  have h: "transactions ledgerApp \<noteq> []" by (simp add: ledgerApp_def ledger_def)
  from export_leaves_state[OF h, of referencePlatform] h show ?thesis
    by (simp add: ledgerApp_def emptyApp_def)
qed

text \<open>The file for two transactions, one with a comma in its description.\<close>

lemma export_example:
  "snd (exportToCsv referencePlatform
      (emptyApp\<lparr>transactions :=
         [\<lparr>description = ''Groceries, weekly'', amount = Finite 300, type = VariableExpense,
           category = Some ''Comida'', date = ''2024-01-03'', user = ''Usuario 1'', id' = ''id-2''\<rparr>,
          \<lparr>description = ''Salary'', amount = Finite 1500, type = Income,
           category = None, date = ''2024-01-05'', user = ''Usuario 2'', id' = ''id-1''\<rparr>]\<rparr>))
   = [Download ''transacciones.csv'' ''text/csv;charset=utf-8;''
        (''ID,Descripci'' @ [CHR 0xC3, CHR 0xB3] @ ''n,Monto,Tipo,Categor'' @ [CHR 0xC3, CHR 0xAD]
           @ ''a,Fecha,Usuario'' @ [CHR 0x0A]
         @ ''id-2,'' @ [CHR 0x22] @ ''Groceries, weekly'' @ [CHR 0x22]
           @ '',300,variable-expense,Comida,2024-01-03,Usuario 1'' @ [CHR 0x0A]
         @ ''id-1,Salary,1500,income,,2024-01-05,Usuario 2'')]"
  by code_simp

subsection \<open>The quoting of fields\<close>

lemma replaceQuotes_concat:
  "replaceQuotes s = concat (map (\<lambda>c. if c = CHR 0x22 then [CHR 0x22, CHR 0x22] else [c]) s)"
  by (induction s) simp_all

lemma formatCsvCell_Some: "formatCsvCell (Some s) = quotedIfComma s"
  by (simp add: formatCsvCell_def quotedIfComma_def quoted_def replaceQuotes_concat)

lemma length_quoted: "length s < length (quoted s)"
proof -
  have "length s \<le> length (concat (map (\<lambda>c. if c = CHR 0x22 then [CHR 0x22, CHR 0x22] else [c]) s))"
    by (induction s) auto
  then show ?thesis by (simp add: quoted_def)
qed

lemma quoted_neq: "quoted s \<noteq> s"
  using length_quoted[of s] by auto

lemma quotedIfComma_iff: "(quotedIfComma s = quoted s) = (CHR '','' \<in> set s)"
  using quoted_neq[of s] by (auto simp: quotedIfComma_def)

lemma formatCsvCell_category:
  "formatCsvCell (category t) = quotedIfComma (case category t of None \<Rightarrow> [] | Some c \<Rightarrow> c)"
  by (cases "category t") (simp_all add: formatCsvCell_Some, simp add: formatCsvCell_def quotedIfComma_def)

lemma typeString_no_comma: "CHR '','' \<notin> set (typeString k)"
  by (cases k) (simp_all add: typeString_def)

lemma rowCells_quoteRule:
  assumes "CHR '','' \<notin> set (id' t)" and "CHR '','' \<notin> set (date t)"
  shows "rowCells t = map quoteRule (rawCells t)"
  using assms typeString_no_comma[of "type t"]
  by (simp add: rowCells_def rawCells_def quoteRule_def formatCsvCell_Some formatCsvCell_category
      quotedIfComma_def)

text \<open>
  Claim C4. The identifier of a transaction is a UUID and its date a calendar date in ISO
  form, so neither contains a comma. For such transactions the file that \<^verbatim>\<open>exportToCsv\<close>
  offers is the header row followed by one row per transaction in which every field is
  the raw field under the quoting rule: wrapped in double quotes, with its double quotes
  doubled, if and only if it contains a comma (the amount is a number and is written as
  the platform writes numbers). A field without a comma, whatever quote characters it
  has, is emitted as it is.
\<close>

theorem csv_fields_quoted_iff_comma:
  assumes "transactions s \<noteq> []"
    and "\<forall>t \<in> set (transactions s). CHR '','' \<notin> set (id' t) \<and> CHR '','' \<notin> set (date t)"
  shows "snd (exportToCsv P s) =
           [Download ''transacciones.csv'' ''text/csv;charset=utf-8;''
              (join [CHR 0x0A]
                 (join '','' headers #
                  map (\<lambda>t. join '','' (map (cellString (numberToString P)) (map quoteRule (rawCells t))))
                    (transactions s)))]
         \<and> (\<forall>r. (quotedIfComma r = quoted r) = (CHR '','' \<in> set r))
         \<and> (\<forall>r. CHR '','' \<notin> set r \<longrightarrow> quotedIfComma r = r)"
proof (intro conjI allI impI)
  have rows: "\<And>t. t \<in> set (transactions s) \<Longrightarrow> rowCells t = map quoteRule (rawCells t)"
    using assms(2) by (simp add: rowCells_quoteRule)
  have "csvRows (numberToString P) (transactions s) =
          join '','' headers #
          map (\<lambda>t. join '','' (map (cellString (numberToString P)) (map quoteRule (rawCells t))))
            (transactions s)"
    unfolding csvRows_def using rows by (simp cong: map_cong del: map_map)
  then show "snd (exportToCsv P s) =
           [Download ''transacciones.csv'' ''text/csv;charset=utf-8;''
              (join [CHR 0x0A]
                 (join '','' headers #
                  map (\<lambda>t. join '','' (map (cellString (numberToString P)) (map quoteRule (rawCells t))))
                    (transactions s)))]"
    using assms(1) by (simp add: exportToCsv_def Let_def del: map_map)
next
  fix r show "(quotedIfComma r = quoted r) = (CHR '','' \<in> set r)" by (rule quotedIfComma_iff)
next
  fix r assume "CHR '','' \<notin> set r" then show "quotedIfComma r = r" by (simp add: quotedIfComma_def)
qed

theorem csv_fields_quoted_iff_comma_witness:
  "transactions groceriesApp \<noteq> []
   \<and> list_all (\<lambda>t. CHR '','' \<notin> set (id' t) \<and> CHR '','' \<notin> set (date t)) (transactions groceriesApp)
   \<and> snd (exportToCsv referencePlatform groceriesApp) =
       [Download ''transacciones.csv'' ''text/csv;charset=utf-8;''
        (''ID,Descripci'' @ [CHR 0xC3, CHR 0xB3] @ ''n,Monto,Tipo,Categor'' @ [CHR 0xC3, CHR 0xAD]
           @ ''a,Fecha,Usuario'' @ [CHR 0x0A]
         @ ''id-2,'' @ [CHR 0x22] @ ''Groceries, weekly'' @ [CHR 0x22]
           @ '',300,variable-expense,Comida,2024-01-03,Usuario 1'' @ [CHR 0x0A]
         @ ''id-1,'' @ [CHR 0x22] @ ''Salary'' @ [CHR 0x22] @ '',1500,income,,2024-01-05,Usuario 2'')]"
proof -
  have h1: "transactions groceriesApp \<noteq> []" by (simp add: groceriesApp_def)
  have h2: "list_all (\<lambda>t. CHR '','' \<notin> set (id' t) \<and> CHR '','' \<notin> set (date t)) (transactions groceriesApp)"
    by (simp add: groceriesApp_def)
  from h2 have h2': "\<forall>t \<in> set (transactions groceriesApp). CHR '','' \<notin> set (id' t) \<and> CHR '','' \<notin> set (date t)"
    by (simp add: list_all_iff)
  note inst = csv_fields_quoted_iff_comma[OF h1 h2', of referencePlatform]
  have content: "join [CHR 0x0A]
                 (join '','' headers #
                  map (\<lambda>t. join '','' (map (cellString (numberToString referencePlatform)) (map quoteRule (rawCells t))))
                    (transactions groceriesApp))
     = ''ID,Descripci'' @ [CHR 0xC3, CHR 0xB3] @ ''n,Monto,Tipo,Categor'' @ [CHR 0xC3, CHR 0xAD]
           @ ''a,Fecha,Usuario'' @ [CHR 0x0A]
         @ ''id-2,'' @ [CHR 0x22] @ ''Groceries, weekly'' @ [CHR 0x22]
           @ '',300,variable-expense,Comida,2024-01-03,Usuario 1'' @ [CHR 0x0A]
         @ ''id-1,'' @ [CHR 0x22] @ ''Salary'' @ [CHR 0x22] @ '',1500,income,,2024-01-05,Usuario 2''"
    by code_simp
  from inst have "snd (exportToCsv referencePlatform groceriesApp) =
           [Download ''transacciones.csv'' ''text/csv;charset=utf-8;''
              (join [CHR 0x0A]
                 (join '','' headers #
                  map (\<lambda>t. join '','' (map (cellString (numberToString referencePlatform)) (map quoteRule (rawCells t))))
                    (transactions groceriesApp)))]" by blast
  with content h1 h2 show ?thesis by simp
qed

section \<open>The forms\<close>

text \<open>
  Claim C5 fails on the program: \<^verbatim>\<open>handleSubmit\<close> rejects an empty amount text and
  stores \<^verbatim>\<open>parseFloat(amount)\<close> for any other, so the amount text \<^verbatim>\<open>-5\<close> puts a
  transaction with the negative amount \<open>-5\<close> into the collection.
\<close>

theorem negative_amount_is_stored:
  "map amount (transactions
      (handleSubmit referencePlatform ''id-1'' ''Reembolso'' ''-5'' VariableExpense ''Comida''
         ''2024-01-05'' ''Usuario 1'' emptyApp)) = [Finite (- 5)]
   \<and> \<not> number_ge (Finite (- 5)) (Finite 0)"
  by code_simp

text \<open>
  The budget form does check its number: \<^verbatim>\<open>handleUpdate\<close> never replaces a
  non-negative budget by a negative one or by \<^verbatim>\<open>NaN\<close>.
\<close>

theorem handleUpdate_budget_nonnegative:
  "number_ge (budget s) (Finite 0) \<Longrightarrow> number_ge (budget (handleUpdate P newBudget s)) (Finite 0)"
  by (simp add: handleUpdate_def Let_def setBudget_def case_prod_beta setValue_fst)

theorem handleUpdate_budget_nonnegative_witness:
  "number_ge (budget emptyApp) (Finite 0)
   \<and> number_ge (budget (handleUpdate referencePlatform ''-5'' emptyApp)) (Finite 0)
   \<and> budget (handleUpdate referencePlatform ''-5'' emptyApp) = Finite 2000
   \<and> budget (handleUpdate referencePlatform ''2500'' emptyApp) = Finite 2500"
proof -
  have h: "number_ge (budget emptyApp) (Finite 0)" by (simp add: emptyApp_def DEFAULT_BUDGET_def)
  have e: "budget (handleUpdate referencePlatform ''-5'' emptyApp) = Finite 2000"
    "budget (handleUpdate referencePlatform ''2500'' emptyApp) = Finite 2500" by code_simp+
  from handleUpdate_budget_nonnegative[OF h, of referencePlatform "''-5''"] h e show ?thesis by simp
qed

text \<open>A submission with an empty description, amount, date or user changes nothing.\<close>

theorem handleSubmit_missing_field:
  "description' = [] \<or> amount' = [] \<or> date' = [] \<or> user' = [] \<Longrightarrow>
     handleSubmit P uuid description' amount' type' category' date' user' s = s"
  by (auto simp: handleSubmit_def)

theorem handleSubmit_missing_field_witness:
  "handleSubmit referencePlatform ''id-1'' ''Cena'' '''' VariableExpense ''Comida'' ''2024-01-05''
     ''Usuario 1'' emptyApp = emptyApp"
  using handleSubmit_missing_field[of "''Cena''" "''''" "''2024-01-05''" "''Usuario 1''"
      referencePlatform "''id-1''" VariableExpense "''Comida''" emptyApp]
  by simp

section \<open>Further properties\<close>

text \<open>Deleting an identifier that no transaction has leaves the collection as it was.\<close>

theorem deleteTransaction_absent_id:
  "i \<notin> set (map id' (transactions s)) \<Longrightarrow>
     transactions (deleteTransaction P i s) = transactions s"
  by (simp add: deleteTransaction_def transactions_setTransactions filter_id_conv image_iff)
    (metis)

theorem deleteTransaction_absent_id_witness:
  "''id-9'' \<notin> set (map id' (transactions ledgerApp))
   \<and> transactions (deleteTransaction referencePlatform ''id-9'' ledgerApp) = ledger"
proof -
  have h: "''id-9'' \<notin> set (map id' (transactions ledgerApp))"
    by (simp add: ledgerApp_def ledger_def sample_def)
  from deleteTransaction_absent_id[OF h, of referencePlatform] h show ?thesis
    by (simp add: ledgerApp_def)
qed

text \<open>With nothing in the store the application starts from the defaults.\<close>

theorem initialApp_defaults:
  "initialApp parseTransactions parseStrings parseNumber \<lparr>items = [], quota = q\<rparr> =
     \<lparr>transactions = [], categories = DEFAULT_CATEGORIES, users = DEFAULT_USERS,
      budget = DEFAULT_BUDGET, localStorage = \<lparr>items = [], quota = q\<rparr>\<rparr>"
  by (simp add: initialApp_def initialStoredValue_def getItem_def)

text \<open>
  From any collection that is sorted by date descending, as the one the program stored
  is, the calls keep the collection sorted.
\<close>

lemma sortedByDateDesc_sorted_key:
  assumes "sortedByDateDesc gt l"
  shows "sorted (map (dateKey gt) l)"
proof -
  have "sorted_wrt (\<lambda>a b. dateKey gt a \<le> dateKey gt b) l"
    using assms unfolding sortedByDateDesc_def
    by (rule sorted_wrt_mono_rel[rotated]) (auto simp: dateKey_def split: option.splits)
  then show ?thesis by (simp add: sorted_map)
qed

theorem calls_preserve_order:
  assumes "sortedByDateDesc (getTime P) (transactions s)"
    and "\<forall>t\<in>set (transactions s). getTime P (date t) \<noteq> None"
    and "\<forall>c\<in>set cs. validCall (getTime P) c"
  shows "sortedByDateDesc (getTime P) (transactions (calls P s cs))"
proof -
  let ?key = "dateKey (getTime P)"
  have "transactions s = sort_key ?key (transactions s)"
    using sortedByDateDesc_sorted_key[OF assms(1)] by (simp add: sort_key_id_if_sorted)
  from calls_sorted_log[OF assms(3) assms(2) this]
  have inv: "transactions (calls P s cs) = sort_key ?key (foldl prependOnly (transactions s) cs)"
    and valid: "\<forall>t\<in>set (foldl prependOnly (transactions s) cs). getTime P (date t) \<noteq> None"
    by simp_all
  show ?thesis unfolding inv by (rule sortedByDateDesc_sort_key[OF valid])
qed

theorem calls_preserve_order_witness:
  "sortedByDateDesc (getTime referencePlatform) (transactions ledgerApp)
   \<and> list_all (\<lambda>t. getTime referencePlatform (date t) \<noteq> None) (transactions ledgerApp)
   \<and> list_all (validCall (getTime referencePlatform)) twoSameDay
   \<and> sortedByDateDesc (getTime referencePlatform) (transactions (calls referencePlatform ledgerApp twoSameDay))
   \<and> map id' (transactions (calls referencePlatform ledgerApp twoSameDay))
        = [''id-2'', ''id-1'', ''a'', ''b'', ''c'']"
proof -
  have h1: "sortedByDateDesc (getTime referencePlatform) (transactions ledgerApp)" by code_simp
  have h2: "\<forall>t\<in>set (transactions ledgerApp). getTime referencePlatform (date t) \<noteq> None" by code_simp
  have h3: "\<forall>c\<in>set twoSameDay. validCall (getTime referencePlatform) c" by code_simp
  have r: "map id' (transactions (calls referencePlatform ledgerApp twoSameDay))
        = [''id-2'', ''id-1'', ''a'', ''b'', ''c'']" by code_simp
  from calls_preserve_order[OF h1 h2 h3] h1 h2 h3 r show ?thesis by (simp add: list_all_iff)
qed

end
